theory Spec2Isabelle
  imports Complex_Main "HOL-Library.Word"
begin

unbundle bit_operations_syntax

section \<open>Peridynamic bond store: FixPeriNeigh (PERI/fix\_peri\_neigh.cpp)\<close>

text \<open>
  The C++ \<open>int\<close> values of the source (slot indices, tags, counts) are modelled as
  \<open>int\<close>: the source copies and compares them and counts the entries of neighbour
  lists, and its arithmetic on them is taken not to overflow. The C++ \<open>double\<close>
  values are modelled as the \<open>real\<close> numbers they denote: infinities and NaN are not
  part of the model. Where \<open>setup\<close> computes the squared distance of a pair and the
  length of a bond, the rounded operations of the machine are parameters of the model, so
  that the cutoff test decides on the number that the code compares; the sums of volume
  fractions and the weighted volume are computed in real arithmetic. An access outside the allocated storage, undefined in C++, is the error value
  \<open>OutOfBounds\<close>; the call \<open>error->one(...)\<close>, which aborts the run, is the error
  value \<open>DuplicateParticle\<close>.
\<close>

subsection \<open>Errors and checked array accesses\<close>

datatype error = OutOfBounds | DuplicateParticle

definition andThen :: "error + 'a \<Rightarrow> ('a \<Rightarrow> error + 'b) \<Rightarrow> error + 'b" where
  "andThen m f = (case m of Inl e \<Rightarrow> Inl e | Inr v \<Rightarrow> f v)"

text \<open>A loop body run over the values of the loop variable, stopping at the first error.\<close>

primrec foldE :: "('a \<Rightarrow> 's \<Rightarrow> error + 's) \<Rightarrow> 'a list \<Rightarrow> 's \<Rightarrow> error + 's" where
  "foldE f [] s = Inr s"
| "foldE f (a # as) s = andThen (f a s) (foldE f as)"

text \<open>The values of \<open>k\<close> in \<open>for (k = a; k < b; k++)\<close>, and in \<open>for (k = 0; k < n; k++)\<close>.\<close>

definition count_from :: "int \<Rightarrow> int \<Rightarrow> int list" where
  "count_from a b = map (\<lambda>k. a + int k) [0..<nat (b - a)]"

definition count_up :: "int \<Rightarrow> int list" where
  "count_up n = map int [0..<nat n]"

definition rd :: "'a list \<Rightarrow> int \<Rightarrow> error + 'a" where
  "rd xs i = (if 0 \<le> i \<and> i < int (length xs) then Inr (xs ! nat i) else Inl OutOfBounds)"

definition wr :: "'a list \<Rightarrow> int \<Rightarrow> 'a \<Rightarrow> error + 'a list" where
  "wr xs i v = (if 0 \<le> i \<and> i < int (length xs) then Inr (xs[nat i := v]) else Inl OutOfBounds)"

definition rd2 :: "'a list list \<Rightarrow> int \<Rightarrow> int \<Rightarrow> error + 'a" where
  "rd2 xss i k = andThen (rd xss i) (\<lambda>row. rd row k)"

definition wr2 :: "'a list list \<Rightarrow> int \<Rightarrow> int \<Rightarrow> 'a \<Rightarrow> error + 'a list list" where
  "wr2 xss i k v = andThen (rd xss i) (\<lambda>row. andThen (wr row k v) (\<lambda>row'. wr xss i row'))"

text \<open>\<open>static_cast<int>\<close> of a double: truncation towards zero.\<close>

definition cast_int :: "real \<Rightarrow> int" where
  "cast_int r = (if 0 \<le> r then \<lfloor>r\<rfloor> else \<lceil>r\<rceil>)"

subsection \<open>The store\<close>

text \<open>
  The data members of \<open>FixPeriNeigh\<close>. The arrays have \<open>atom->nmax\<close> slots; each row of
  \<open>partner\<close> and \<open>r0\<close> has \<open>maxpartner\<close> entries.
\<close>

record store =
  first :: int
  maxpartner :: int
  npartner :: "int list"
  partner :: "int list list"
  r0 :: "real list list"
  vinter :: "real list"
  wvolume :: "real list"

text \<open>Storage as \<open>grow_arrays(n)\<close> leaves it: \<open>n\<close> slots, rows of \<open>maxpartner\<close> entries.\<close>

definition sized :: "store \<Rightarrow> nat \<Rightarrow> bool" where
  "sized st n \<longleftrightarrow>
     length (npartner st) = n \<and> length (partner st) = n \<and> length (r0 st) = n \<and>
     length (vinter st) = n \<and> length (wvolume st) = n \<and>
     list_all (\<lambda>row. length row = nat (maxpartner st)) (partner st) \<and>
     list_all (\<lambda>row. length row = nat (maxpartner st)) (r0 st)"

text \<open>The bonds of slot \<open>i\<close>: its first \<open>npartner[i]\<close> pairs \<open>(partner[i][n], r0[i][n])\<close>.\<close>

definition bonds :: "store \<Rightarrow> int \<Rightarrow> (int \<times> real) list" where
  "bonds st i =
     (let n = nat (npartner st ! nat i)
      in zip (take n (partner st ! nat i)) (take n (r0 st ! nat i)))"

subsection \<open>Migration: pack\_exchange and unpack\_exchange\<close>

text \<open>
  The buffer of \<open>pack_exchange\<close> is the list of the words \<open>buf[0..m)\<close> written so far;
  \<open>buf[0]\<close> is reserved first and set after the compaction; the value returned by the
  source is the length of the list.
\<close>

definition pack_exchange_bond :: "store \<Rightarrow> int \<Rightarrow> int \<Rightarrow> real list \<Rightarrow> error + real list" where
  "pack_exchange_bond st i n buf =
     andThen (rd2 (partner st) i n) (\<lambda>p.
       if p = 0 then Inr buf
       else andThen (rd2 (r0 st) i n) (\<lambda>r. Inr (buf @ [of_int p, r])))"

definition pack_exchange :: "store \<Rightarrow> int \<Rightarrow> error + real list" where
  "pack_exchange st i =
     andThen (rd (npartner st) i) (\<lambda>np.
     andThen (foldE (pack_exchange_bond st i) (count_up np) [0]) (\<lambda>buf.
     andThen (rd (vinter st) i) (\<lambda>v.
     andThen (rd (wvolume st) i) (\<lambda>w.
       Inr (buf[0 := of_int (int (length buf) div 2)] @ [v, w])))))"

text \<open>\<open>unpack_exchange\<close> returns the store and the number \<open>m\<close> of words it has read.\<close>

definition unpack_exchange_bond ::
    "real list \<Rightarrow> int \<Rightarrow> int \<Rightarrow> store \<times> int \<Rightarrow> error + store \<times> int" where
  "unpack_exchange_bond buf nlocal n sm =
     (case sm of (st, m) \<Rightarrow>
       andThen (rd buf m) (\<lambda>b.
       andThen (wr2 (partner st) nlocal n (cast_int b)) (\<lambda>p'.
       andThen (rd buf (m + 1)) (\<lambda>r.
       andThen (wr2 (r0 st) nlocal n r) (\<lambda>r'.
         Inr (st\<lparr>partner := p', r0 := r'\<rparr>, m + 2))))))"

definition unpack_exchange :: "store \<Rightarrow> int \<Rightarrow> real list \<Rightarrow> error + store \<times> int" where
  "unpack_exchange st nlocal buf =
     andThen (rd buf 0) (\<lambda>b.
     andThen (wr (npartner st) nlocal (cast_int b)) (\<lambda>np'.
     andThen (foldE (unpack_exchange_bond buf nlocal) (count_up (cast_int b))
                (st\<lparr>npartner := np'\<rparr>, 1)) (\<lambda>sm.
       case sm of (s1, m) \<Rightarrow>
         andThen (rd buf m) (\<lambda>v.
         andThen (wr (vinter s1) nlocal v) (\<lambda>vi'.
         andThen (rd buf (m + 1)) (\<lambda>w.
         andThen (wr (wvolume s1) nlocal w) (\<lambda>wv'.
           Inr (s1\<lparr>vinter := vi', wvolume := wv'\<rparr>, m + 2))))))))"

subsection \<open>Ghost synchronisation: pack\_comm and unpack\_comm\<close>

text \<open>
  \<open>pack_comm\<close> returns the value the source returns (the number of words per particle)
  and the words \<open>buf[0..m)\<close> it has written; it does not change the store.
\<close>

definition pack_comm_one :: "store \<Rightarrow> int list \<Rightarrow> int \<Rightarrow> real list \<Rightarrow> error + real list" where
  "pack_comm_one st list i buf =
     andThen (rd list i) (\<lambda>j.
     andThen (rd (wvolume st) j) (\<lambda>w. Inr (buf @ [w])))"

definition pack_comm :: "store \<Rightarrow> int \<Rightarrow> int list \<Rightarrow> error + int \<times> real list" where
  "pack_comm st n list =
     andThen (foldE (pack_comm_one st list) (count_up n) []) (\<lambda>buf. Inr (1, buf))"

definition unpack_comm_one :: "real list \<Rightarrow> int \<Rightarrow> store \<times> int \<Rightarrow> error + store \<times> int" where
  "unpack_comm_one buf i sm =
     (case sm of (st, m) \<Rightarrow>
       andThen (rd buf m) (\<lambda>w.
       andThen (wr (wvolume st) i w) (\<lambda>wv'. Inr (st\<lparr>wvolume := wv'\<rparr>, m + 1))))"

definition unpack_comm :: "store \<Rightarrow> int \<Rightarrow> int \<Rightarrow> real list \<Rightarrow> error + store" where
  "unpack_comm st n frst buf =
     (let last = frst + n
      in andThen (foldE (unpack_comm_one buf) (count_from frst last) (st, 0))
           (\<lambda>sm. Inr (fst sm)))"

subsection \<open>Storage growth\<close>

text \<open>
  Modelled from the spec: the particle store's array-growth facility (\<open>Memory::grow\<close>,
  "grow every registered per-particle array to N slots") is not among the sources. An array
  grown to \<open>n\<close> cells keeps the cells it had; the content of a new cell is whatever
  the allocator returns, given here by the parameter \<open>fresh\<close>. A destroyed array (the
  \<open>NULL\<close> pointer) is the empty list.
\<close>

definition grow1 :: "(nat \<Rightarrow> 'a) \<Rightarrow> nat \<Rightarrow> 'a list \<Rightarrow> 'a list" where
  "grow1 fresh n xs = map (\<lambda>k. if k < length xs then xs ! k else fresh k) [0..<n]"

text \<open>
  Modelled from the spec: the same facility for a two-dimensional array, which is one
  block of \<open>n1 * n2\<close> cells, grown as above and cut into \<open>n1\<close> rows of \<open>n2\<close> cells.
\<close>

definition grow2 :: "(nat \<Rightarrow> 'a) \<Rightarrow> nat \<Rightarrow> nat \<Rightarrow> 'a list list \<Rightarrow> 'a list list" where
  "grow2 fresh n1 n2 xss =
     (let data = grow1 fresh (n1 * n2) (concat xss)
      in map (\<lambda>i. take n2 (drop (i * n2) data)) [0..<n1])"

subsection \<open>The collaborators of setup\<close>

text \<open>
  What \<open>FixPeriNeigh\<close> reads from the rest of LAMMPS. The per-atom arrays of \<open>Atom\<close> and
  the cutoff table of the pair style are total lookups. The neighbour list gives
  \<open>ilist\<close> (\<open>inum\<close> is its length) and \<open>firstneigh[i]\<close> (\<open>numneigh[i]\<close> is its length).
  \<open>NEIGHMASK\<close> is a macro of a header that is not among the sources and is a parameter.
  The pair style found by \<open>pair_match("peri")\<close> is \<open>PairPeriPMB\<close>, \<open>PairPeriLPS\<close> with its
  \<open>influence_function\<close>, or neither. The arithmetic of the machine on doubles rounds:
  \<open>dbl_sub\<close>, \<open>dbl_mul\<close>, \<open>dbl_add\<close> and \<open>dbl_sqrt\<close> give the doubles that \<open>a - b\<close>,
  \<open>a * b\<close>, \<open>a + b\<close> and \<open>sqrt(a)\<close> evaluate to (with IEEE 754 arithmetic, the
  correctly rounded results in binary64); the comparison of two doubles is exact.
\<close>

datatype pair_style = PairPeriPMB | PairPeriLPS "real \<Rightarrow> real \<Rightarrow> real \<Rightarrow> real" | PairOther

text \<open>
  One swap of the forward communication: the send list, the ghost slots
  \<open>firstrecv .. firstrecv + recvnum - 1\<close>, and the buffer received from the neighbouring
  partition (\<open>recvbuf = Some b\<close>), or \<open>recvbuf = None\<close> when the partition is its own
  neighbour and receives the buffer it has just packed.
\<close>

record swap =
  sendlist :: "int list"
  recvnum :: int
  firstrecv :: int
  recvbuf :: "real list option"

record env =
  atom_nlocal :: int
  atom_nmax :: int
  atom_x :: "int \<Rightarrow> nat \<Rightarrow> real"
  atom_x0 :: "int \<Rightarrow> nat \<Rightarrow> real"
  atom_vfrac :: "int \<Rightarrow> real"
  atom_type :: "int \<Rightarrow> int"
  atom_tag :: "int \<Rightarrow> int"
  atom_map :: "int \<Rightarrow> int"
  list_ilist :: "int list"
  list_firstneigh :: "int \<Rightarrow> int list"
  neighmask :: int
  pair_cutsq :: "int \<Rightarrow> int \<Rightarrow> real"
  pair_anypair :: pair_style
  domain_xperiodic :: bool
  domain_yperiodic :: bool
  domain_zperiodic :: bool
  lattice_xlattice :: real
  comm_swaps :: "swap list"
  fresh_int :: "nat \<Rightarrow> int"
  fresh_real :: "nat \<Rightarrow> real"
  dbl_sub :: "real \<Rightarrow> real \<Rightarrow> real"
  dbl_mul :: "real \<Rightarrow> real \<Rightarrow> real"
  dbl_add :: "real \<Rightarrow> real \<Rightarrow> real"
  dbl_sqrt :: "real \<Rightarrow> real"

definition grow_arrays :: "env \<Rightarrow> int \<Rightarrow> store \<Rightarrow> store" where
  "grow_arrays e nmax st =
     st\<lparr>npartner := grow1 (fresh_int e) (nat nmax) (npartner st),
        partner := grow2 (fresh_int e) (nat nmax) (nat (maxpartner st)) (partner st),
        r0 := grow2 (fresh_real e) (nat nmax) (nat (maxpartner st)) (r0 st),
        vinter := grow1 (fresh_real e) (nat nmax) (vinter st),
        wvolume := grow1 (fresh_real e) (nat nmax) (wvolume st)\<rparr>"

text \<open>
  Modelled from the spec: the routing of GhostSync (\<open>Comm::forward_comm_fix\<close>) is not
  among the sources. For each swap of the schedule, a parameter, it calls \<open>pack_comm\<close> on
  the send list and then \<open>unpack_comm\<close> on the ghost slots with the buffer of the swap.
\<close>

definition forward_comm_swap :: "swap \<Rightarrow> store \<Rightarrow> error + store" where
  "forward_comm_swap sw st =
     andThen (pack_comm st (int (length (sendlist sw))) (sendlist sw)) (\<lambda>nb.
       unpack_comm st (recvnum sw) (firstrecv sw)
         (case recvbuf sw of None \<Rightarrow> snd nb | Some b \<Rightarrow> b))"

definition forward_comm_fix :: "env \<Rightarrow> store \<Rightarrow> error + store" where
  "forward_comm_fix e st = foldE forward_comm_swap (comm_swaps e) st"

subsection \<open>The constructor\<close>

text \<open>
  \<open>first = 1\<close>, the placeholder \<open>maxpartner = 1\<close>, the arrays allocated by
  \<open>grow_arrays(atom->nmax)\<close>, and \<open>npartner\<close> of the local slots set to 0.
\<close>

definition constructor_zero :: "int \<Rightarrow> store \<Rightarrow> error + store" where
  "constructor_zero i st = andThen (wr (npartner st) i 0) (\<lambda>np'. Inr (st\<lparr>npartner := np'\<rparr>))"

definition constructor :: "env \<Rightarrow> error + store" where
  "constructor e =
     foldE constructor_zero (count_up (atom_nlocal e))
       (grow_arrays e (atom_nmax e)
          \<lparr>first = 1, maxpartner = 1, npartner = [], partner = [], r0 = [],
           vinter = [], wvolume = []\<rparr>)"

subsection \<open>Restart: write\_restart, restart, pack\_restart and unpack\_restart\<close>

text \<open>
  \<open>write_restart\<close> gives what rank \<open>me\<close> writes to the file: the size in bytes and the
  list, on rank 0 only. \<open>sizeof(double)\<close> is 8.
\<close>

definition write_restart :: "store \<Rightarrow> int \<Rightarrow> (int \<times> real list) option" where
  "write_restart st me =
     (let list = [of_int (first st), of_int (maxpartner st)];
          n = int (length list)
      in if me = 0 then Some (n * 8, list) else None)"

definition restart :: "env \<Rightarrow> store \<Rightarrow> real list \<Rightarrow> error + store" where
  "restart e st list =
     andThen (rd list 0) (\<lambda>a.
     andThen (rd list 1) (\<lambda>b.
       Inr (grow_arrays e (atom_nmax e)
              (st\<lparr>first := cast_int a, maxpartner := cast_int b\<rparr>))))"

definition pack_restart_bond :: "store \<Rightarrow> int \<Rightarrow> int \<Rightarrow> real list \<Rightarrow> error + real list" where
  "pack_restart_bond st i n buf =
     andThen (rd2 (partner st) i n) (\<lambda>p.
     andThen (rd2 (r0 st) i n) (\<lambda>r. Inr (buf @ [of_int p, r])))"

definition pack_restart :: "store \<Rightarrow> int \<Rightarrow> error + real list" where
  "pack_restart st i =
     andThen (rd (npartner st) i) (\<lambda>np.
     andThen (foldE (pack_restart_bond st i) (count_up np)
                [of_int (2 * np + 4), of_int np]) (\<lambda>buf.
     andThen (rd (vinter st) i) (\<lambda>v.
     andThen (rd (wvolume st) i) (\<lambda>w. Inr (buf @ [v, w])))))"

text \<open>\<open>unpack_restart\<close> reads \<open>atom->extra\<close>, here the parameter \<open>extra\<close>; \<open>nthfix\<close> is the
  source's \<open>nth\<close>.\<close>

definition unpack_restart_skip :: "real list list \<Rightarrow> int \<Rightarrow> int \<Rightarrow> int \<Rightarrow> error + int" where
  "unpack_restart_skip extra nlocal i m =
     andThen (rd2 extra nlocal m) (\<lambda>b. Inr (m + cast_int b))"

definition unpack_restart_bond ::
    "real list list \<Rightarrow> int \<Rightarrow> int \<Rightarrow> store \<times> int \<Rightarrow> error + store \<times> int" where
  "unpack_restart_bond extra nlocal n sm =
     (case sm of (st, m) \<Rightarrow>
       andThen (rd2 extra nlocal m) (\<lambda>b.
       andThen (wr2 (partner st) nlocal n (cast_int b)) (\<lambda>p'.
       andThen (rd2 extra nlocal (m + 1)) (\<lambda>r.
       andThen (wr2 (r0 st) nlocal n r) (\<lambda>r'.
         Inr (st\<lparr>partner := p', r0 := r'\<rparr>, m + 2))))))"

definition unpack_restart :: "real list list \<Rightarrow> store \<Rightarrow> int \<Rightarrow> int \<Rightarrow> error + store" where
  "unpack_restart extra st nlocal nthfix =
     andThen (foldE (unpack_restart_skip extra nlocal) (count_up nthfix) 0) (\<lambda>m0.
     andThen (rd2 extra nlocal (m0 + 1)) (\<lambda>b.
     andThen (wr (npartner st) nlocal (cast_int b)) (\<lambda>np'.
     andThen (foldE (unpack_restart_bond extra nlocal) (count_up (cast_int b))
                (st\<lparr>npartner := np'\<rparr>, m0 + 2)) (\<lambda>sm.
       case sm of (s1, m) \<Rightarrow>
         andThen (rd2 extra nlocal m) (\<lambda>v.
         andThen (wr (vinter s1) nlocal v) (\<lambda>vi'.
         andThen (rd2 extra nlocal (m + 1)) (\<lambda>w.
         andThen (wr (wvolume s1) nlocal w) (\<lambda>wv'.
           Inr (s1\<lparr>vinter := vi', wvolume := wv'\<rparr>)))))))))"

definition maxsize_restart :: "store \<Rightarrow> int" where
  "maxsize_restart st = 2 * maxpartner st + 4"

definition size_restart :: "store \<Rightarrow> int \<Rightarrow> error + int" where
  "size_restart st nlocal = andThen (rd (npartner st) nlocal) (\<lambda>np. Inr (2 * np + 4))"

subsection \<open>The build: setup\<close>

text \<open>
  The squared distance as both passes compute it, \<open>delx*delx + dely*dely + delz*delz\<close>
  with \<open>delx = x[i][0] - x[j][0]\<close> and so on, each operation in double.
\<close>

definition rsq :: "env \<Rightarrow> int \<Rightarrow> int \<Rightarrow> real" where
  "rsq e i j =
     (let delx = dbl_sub e (atom_x e i 0) (atom_x e j 0);
          dely = dbl_sub e (atom_x e i 1) (atom_x e j 1);
          delz = dbl_sub e (atom_x e i 2) (atom_x e j 2)
      in dbl_add e (dbl_add e (dbl_mul e delx delx) (dbl_mul e dely dely)) (dbl_mul e delz delz))"

text \<open>The test of both passes on the masked entry \<open>j\<close>: \<open>rsq <= cutsq[itype][jtype]\<close>.\<close>

definition in_cutoff :: "env \<Rightarrow> int \<Rightarrow> int \<Rightarrow> bool" where
  "in_cutoff e i j \<longleftrightarrow> rsq e i j \<le> pair_cutsq e (atom_type e i) (atom_type e j)"

text \<open>The sizing pass: the scan of the neighbour list that counts into \<open>npartner\<close>.\<close>

definition setup_count :: "env \<Rightarrow> int \<Rightarrow> int \<Rightarrow> store \<Rightarrow> error + store" where
  "setup_count e i jraw st =
     (let j = jraw AND neighmask e
      in if in_cutoff e i j
         then andThen (rd (npartner st) i) (\<lambda>n.
              andThen (wr (npartner st) i (n + 1)) (\<lambda>np'. Inr (st\<lparr>npartner := np'\<rparr>)))
         else Inr st)"

definition setup_sizing :: "env \<Rightarrow> store \<Rightarrow> error + store" where
  "setup_sizing e st =
     foldE (\<lambda>i. foldE (setup_count e i) (list_firstneigh e i)) (list_ilist e) st"

text \<open>The local maximum, and \<open>MPI_Allreduce\<close> with \<open>MPI_MAX\<close> over it and the values of
  the other ranks.\<close>

definition setup_localmax :: "env \<Rightarrow> store \<Rightarrow> error + int" where
  "setup_localmax e st =
     foldE (\<lambda>i m. andThen (rd (npartner st) i) (\<lambda>n. Inr (max m n)))
       (count_up (atom_nlocal e)) 0"

definition allreduce_max :: "int \<Rightarrow> int list \<Rightarrow> int" where
  "allreduce_max mine others = fold max others mine"

text \<open>The reallocation with the new \<open>maxpartner\<close>, and the reset of the local slots.\<close>

definition setup_realloc :: "env \<Rightarrow> store \<Rightarrow> store" where
  "setup_realloc e st =
     grow_arrays e (atom_nmax e) (st\<lparr>partner := [], r0 := [], npartner := []\<rparr>)"

definition setup_reset :: "int \<Rightarrow> store \<Rightarrow> error + store" where
  "setup_reset i st =
     andThen (wr (npartner st) i 0) (\<lambda>np'.
     andThen (wr (vinter st) i 0) (\<lambda>vi'.
     andThen (wr (wvolume st) i 0) (\<lambda>wv'.
       Inr (st\<lparr>npartner := np', vinter := vi', wvolume := wv'\<rparr>))))"

text \<open>The population pass: the second scan, which writes the bonds.\<close>

definition setup_bond :: "env \<Rightarrow> int \<Rightarrow> int \<Rightarrow> store \<Rightarrow> error + store" where
  "setup_bond e i jraw st =
     (let j = jraw AND neighmask e
      in if in_cutoff e i j
         then andThen (rd (npartner st) i) (\<lambda>n.
              andThen (wr2 (partner st) i n (atom_tag e j)) (\<lambda>p'.
              andThen (wr2 (r0 st) i n (dbl_sqrt e (rsq e i j))) (\<lambda>r'.
              andThen (wr (npartner st) i (n + 1)) (\<lambda>np'.
              andThen (rd (vinter st) i) (\<lambda>v.
              andThen (wr (vinter st) i (v + atom_vfrac e j)) (\<lambda>vi'.
                Inr (st\<lparr>partner := p', r0 := r', npartner := np', vinter := vi'\<rparr>)))))))
         else Inr st)"

definition setup_populate :: "env \<Rightarrow> store \<Rightarrow> error + store" where
  "setup_populate e st =
     foldE (\<lambda>i. foldE (setup_bond e i) (list_firstneigh e i)) (list_ilist e) st"

text \<open>
  The first part of \<open>setup\<close>, up to the end of the population pass; \<open>others\<close> are the
  values the other ranks give to \<open>MPI_Allreduce\<close>.
\<close>

definition setup_bonds :: "env \<Rightarrow> int list \<Rightarrow> store \<Rightarrow> error + store" where
  "setup_bonds e others st =
     andThen (setup_sizing e (st\<lparr>first := 0\<rparr>)) (\<lambda>s1.
     andThen (setup_localmax e s1) (\<lambda>m.
       let maxall = allreduce_max m others;
           s2 = setup_realloc e (s1\<lparr>maxpartner := maxall\<rparr>)
       in andThen (foldE setup_reset (count_up (atom_nlocal e)) s2) (\<lambda>s3.
            setup_populate e s3)))"

text \<open>The sanity check for duplicates; it reads the store only.\<close>

definition duplicate_pair :: "store \<Rightarrow> int \<Rightarrow> int \<Rightarrow> int \<Rightarrow> unit \<Rightarrow> error + unit" where
  "duplicate_pair st i jj kk u =
     andThen (rd2 (partner st) i jj) (\<lambda>a.
     andThen (rd2 (partner st) i kk) (\<lambda>b.
       if a = b then Inl DuplicateParticle else Inr ()))"

definition duplicate_atom :: "store \<Rightarrow> int \<Rightarrow> unit \<Rightarrow> error + unit" where
  "duplicate_atom st i u =
     andThen (rd (npartner st) i) (\<lambda>jnum.
       foldE (\<lambda>jj. foldE (duplicate_pair st i jj) (count_from (jj + 1) jnum))
         (count_up jnum) u)"

definition duplicate_check :: "env \<Rightarrow> store \<Rightarrow> error + unit" where
  "duplicate_check e st =
     (if domain_xperiodic e \<or> domain_yperiodic e \<or> domain_zperiodic e
      then foldE (duplicate_atom st) (count_up (atom_nlocal e)) ()
      else Inr ())"

text \<open>The weighted volume.\<close>

definition vfrac_scale :: "real \<Rightarrow> real \<Rightarrow> real \<Rightarrow> real" where
  "vfrac_scale half_lc r delta =
     (if \<bar>r - delta\<bar> \<le> half_lc
      then (- 1 / (2 * half_lc)) * r + (1 + ((delta - half_lc) / (2 * half_lc)))
      else 1)"

text \<open>The source's \<open>half_lc\<close>, \<open>delx0\<close>, \<open>dely0\<close>, \<open>delz0\<close> (components 0, 1, 2),
  \<open>rsq0\<close> and \<open>delta\<close>, and the statement \<open>wvolume[i] += c\<close>.\<close>

definition half_lc :: "env \<Rightarrow> real" where
  "half_lc e = 0.5 * lattice_xlattice e"

definition del0 :: "env \<Rightarrow> int \<Rightarrow> int \<Rightarrow> nat \<Rightarrow> real" where
  "del0 e i j k = atom_x0 e i k - atom_x0 e j k"

definition rsq0 :: "env \<Rightarrow> int \<Rightarrow> int \<Rightarrow> real" where
  "rsq0 e i j = del0 e i j 0 * del0 e i j 0 + del0 e i j 1 * del0 e i j 1 +
     del0 e i j 2 * del0 e i j 2"

definition delta :: "env \<Rightarrow> int \<Rightarrow> int \<Rightarrow> real" where
  "delta e i j = sqrt (pair_cutsq e (atom_type e i) (atom_type e j))"

definition wvolume_add :: "store \<Rightarrow> int \<Rightarrow> real \<Rightarrow> error + store" where
  "wvolume_add st i c =
     andThen (rd (wvolume st) i) (\<lambda>w.
     andThen (wr (wvolume st) i (w + c)) (\<lambda>wv'. Inr (st\<lparr>wvolume := wv'\<rparr>)))"

definition wvolume_bond :: "env \<Rightarrow> int \<Rightarrow> int \<Rightarrow> store \<Rightarrow> error + store" where
  "wvolume_bond e i jj st =
     andThen (rd2 (partner st) i jj) (\<lambda>p.
       if p = 0 then Inr st
       else
         let j = atom_map e p
         in if j < 0 then Inr st
            else
              andThen (rd2 (r0 st) i jj) (\<lambda>r.
                let scale = vfrac_scale (half_lc e) r (delta e i j)
                in case pair_anypair e of
                     PairPeriPMB \<Rightarrow>
                       wvolume_add st i (1 * rsq0 e i j * atom_vfrac e j * scale)
                   | PairPeriLPS influence_function \<Rightarrow>
                       wvolume_add st i
                         (influence_function (del0 e i j 0) (del0 e i j 1) (del0 e i j 2) *
                          rsq0 e i j * atom_vfrac e j * scale)
                   | PairOther \<Rightarrow> Inr st))"

definition wvolume_atom :: "env \<Rightarrow> int \<Rightarrow> store \<Rightarrow> error + store" where
  "wvolume_atom e i st =
     andThen (rd (npartner st) i) (\<lambda>jnum. foldE (wvolume_bond e i) (count_up jnum) st)"

definition setup_wvolume :: "env \<Rightarrow> store \<Rightarrow> error + store" where
  "setup_wvolume e st = foldE (wvolume_atom e) (count_up (atom_nlocal e)) st"

text \<open>
  The whole of \<open>FixPeriNeigh::setup\<close>. The bond statistics printed at its end read
  \<open>npartner\<close> only and are left out.
\<close>

definition setup_peri :: "env \<Rightarrow> int list \<Rightarrow> store \<Rightarrow> error + store" where
  "setup_peri e others st =
     (if first st = 0 then Inr st
      else
        andThen (setup_bonds e others st) (\<lambda>s4.
        andThen (duplicate_check e s4) (\<lambda>u.
        andThen (setup_wvolume e s4) (\<lambda>s5.
          forward_comm_fix e s5))))"

subsection \<open>All ranks together\<close>

text \<open>
  Every rank runs \<open>setup\<close> on its own environment and store. \<open>MPI_Allreduce\<close> hands
  to rank \<open>k\<close> the local maxima that the sizing passes of the other ranks have produced.
  All ranks are taken to build: a rank that returns at once, its flag \<open>first\<close> being 0,
  would take no part in the collective call.
\<close>

primrec mapE :: "('a \<Rightarrow> error + 'b) \<Rightarrow> 'a list \<Rightarrow> error + 'b list" where
  "mapE f [] = Inr []"
| "mapE f (a # as) = andThen (f a) (\<lambda>b. andThen (mapE f as) (\<lambda>bs. Inr (b # bs)))"

definition setup_contribution :: "env \<times> store \<Rightarrow> error + int" where
  "setup_contribution p =
     andThen (setup_sizing (fst p) ((snd p)\<lparr>first := 0\<rparr>)) (setup_localmax (fst p))"

definition setup_all :: "(env \<times> store) list \<Rightarrow> error + store list" where
  "setup_all ps =
     andThen (mapE setup_contribution ps) (\<lambda>ms.
       mapE (\<lambda>k. setup_peri (fst (ps ! k)) (take k ms @ drop (Suc k) ms) (snd (ps ! k)))
         [0..<length ps])"

subsection \<open>Notions used in the statements\<close>

text \<open>A bond is live when its tag is not the tombstone 0. \<open>words\<close> lays bonds out as
  buffer words: tag, then reference distance.\<close>

definition live :: "int \<times> real \<Rightarrow> bool" where
  "live b \<longleftrightarrow> fst b \<noteq> 0"

definition words :: "(int \<times> real) list \<Rightarrow> real list" where
  "words bs = concat (map (\<lambda>b. [of_int (fst b), snd b]) bs)"

text \<open>
  A bond slot is resolvable when its tag is not the tombstone and \<open>atom->map\<close> finds the
  partner. \<open>influence\<close> is the weight the pair style gives to the bond from \<open>i\<close> to
  \<open>j\<close>, and \<open>contribution\<close> what slot \<open>jj\<close> of \<open>i\<close> then adds to \<open>wvolume[i]\<close>.
\<close>

definition resolvable :: "env \<Rightarrow> store \<Rightarrow> int \<Rightarrow> int \<Rightarrow> bool" where
  "resolvable e st i jj \<longleftrightarrow>
     partner st ! nat i ! nat jj \<noteq> 0 \<and> 0 \<le> atom_map e (partner st ! nat i ! nat jj)"

definition influence :: "env \<Rightarrow> int \<Rightarrow> int \<Rightarrow> real" where
  "influence e i j =
     (case pair_anypair e of
        PairPeriPMB \<Rightarrow> 1
      | PairPeriLPS f \<Rightarrow> f (del0 e i j 0) (del0 e i j 1) (del0 e i j 2)
      | PairOther \<Rightarrow> 0)"

definition contribution :: "env \<Rightarrow> store \<Rightarrow> int \<Rightarrow> int \<Rightarrow> real" where
  "contribution e st i jj =
     (let j = atom_map e (partner st ! nat i ! nat jj)
      in influence e i j * rsq0 e i j * atom_vfrac e j *
         vfrac_scale (half_lc e) (r0 st ! nat i ! nat jj) (delta e i j))"

text \<open>
  The state in which \<open>setup\<close> is first called. The neighbour list names local particles
  only, and they fit in storage; the store has not been built, and \<open>npartner\<close> of every
  local slot is 0, as the constructor leaves it.
\<close>

definition is_local :: "env \<Rightarrow> int \<Rightarrow> bool" where
  "is_local e i \<longleftrightarrow> 0 \<le> i \<and> i < atom_nlocal e"

definition neigh_ok :: "env \<Rightarrow> bool" where
  "neigh_ok e \<longleftrightarrow> atom_nlocal e \<le> atom_nmax e \<and> list_all (is_local e) (list_ilist e)"

definition unbuilt :: "env \<Rightarrow> store \<Rightarrow> bool" where
  "unbuilt e st \<longleftrightarrow>
     first st \<noteq> 0 \<and> length (npartner st) = nat (atom_nmax e) \<and>
     list_all (\<lambda>i. npartner st ! nat i = 0) (count_up (atom_nlocal e))"

text \<open>
  The candidates of \<open>i\<close> that pass the cutoff test, the bond each of them gives, and the
  bonds that the scans of a list \<open>il\<close> of particles give to \<open>i\<close>, in order.
\<close>

definition passing :: "env \<Rightarrow> int \<Rightarrow> int list \<Rightarrow> int list" where
  "passing e i jl = filter (\<lambda>jraw. in_cutoff e i (jraw AND neighmask e)) jl"

definition accepted :: "env \<Rightarrow> int \<Rightarrow> int list" where
  "accepted e i = passing e i (list_firstneigh e i)"

definition bond_of :: "env \<Rightarrow> int \<Rightarrow> int \<Rightarrow> int \<times> real" where
  "bond_of e i jraw =
     (atom_tag e (jraw AND neighmask e), dbl_sqrt e (rsq e i (jraw AND neighmask e)))"

definition created_in :: "env \<Rightarrow> int list \<Rightarrow> int \<Rightarrow> (int \<times> real) list" where
  "created_in e il i =
     concat (map (\<lambda>a. if a = i then map (bond_of e i) (accepted e i) else []) il)"

definition created :: "env \<Rightarrow> int \<Rightarrow> (int \<times> real) list" where
  "created e i = created_in e (list_ilist e) i"

text \<open>The largest number of bonds created for a local particle of this rank, or 0.\<close>

definition local_degree_max :: "env \<Rightarrow> int" where
  "local_degree_max e =
     fold max (map (\<lambda>i. int (length (created e i))) (count_up (atom_nlocal e))) 0"

text \<open>The largest \<open>npartner\<close> of a local particle in a store, or 0.\<close>

definition local_max :: "env \<Rightarrow> store \<Rightarrow> int" where
  "local_max e st = fold max (map (\<lambda>i. npartner st ! nat i) (count_up (atom_nlocal e))) 0"

text \<open>Some axis is periodic; some local particle has the same tag in two of its slots.\<close>

definition periodic :: "env \<Rightarrow> bool" where
  "periodic e \<longleftrightarrow> domain_xperiodic e \<or> domain_yperiodic e \<or> domain_zperiodic e"

definition has_duplicate :: "env \<Rightarrow> store \<Rightarrow> bool" where
  "has_duplicate e st \<longleftrightarrow>
     (\<exists>i \<in> set (count_up (atom_nlocal e)).
      \<exists>jj \<in> set (count_up (npartner st ! nat i)).
      \<exists>kk \<in> set (count_from (jj + 1) (npartner st ! nat i)).
        partner st ! nat i ! nat jj = partner st ! nat i ! nat kk)"

text \<open>A result that, when it is an error, is an access out of bounds.\<close>

definition only_oob :: "error + 'a \<Rightarrow> bool" where
  "only_oob m \<longleftrightarrow> (\<forall>err. m = Inl err \<longrightarrow> err = OutOfBounds)"

text \<open>A restart record of another fix in \<open>atom->extra\<close>: it starts with its own length.\<close>

definition foreign :: "real list \<Rightarrow> bool" where
  "foreign r \<longleftrightarrow> r \<noteq> [] \<and> cast_int (hd r) = int (length r)"

text \<open>What restart and migration keep of slot \<open>i\<close>.\<close>

definition slot :: "store \<Rightarrow> int \<Rightarrow> int \<times> (int \<times> real) list \<times> real \<times> real" where
  "slot st i = (npartner st ! nat i, bonds st i, vinter st ! nat i, wvolume st ! nat i)"

subsection \<open>Concrete inputs\<close>

text \<open>
  A store with a tombstone in slot 0, and a row of \<open>atom->extra\<close> that holds the record
  of another fix before the record of slot 0.
\<close>

definition ex_store :: store where
  "ex_store = \<lparr>first = 0, maxpartner = 3, npartner = [3, 0],
     partner = [[7, 0, 9], [0, 0, 0]], r0 = [[1, 2, 3 / 2], [0, 0, 0]],
     vinter = [5, 0], wvolume = [4, 0]\<rparr>"

definition ex_extra :: "real list list" where
  "ex_extra = [[], [3, 8, 8, 10, 3, 7, 1, 0, 2, 9, 3 / 2, 5, 4]]"

text \<open>
  Two particles on the x axis at distance 1, the cutoff of their type pair; each is the
  only candidate neighbour of the other; one rank, no ghosts. On these coordinates the
  operations in double are exact.
\<close>

definition ex_env :: env where
  "ex_env = \<lparr>atom_nlocal = 2, atom_nmax = 2,
     atom_x = (\<lambda>i k. if k = 0 then of_int i else 0),
     atom_x0 = (\<lambda>i k. if k = 0 then of_int i else 0),
     atom_vfrac = (\<lambda>i. 1), atom_type = (\<lambda>i. 1), atom_tag = (\<lambda>i. i + 1),
     atom_map = (\<lambda>t. if 1 \<le> t \<and> t \<le> 2 then t - 1 else - 1),
     list_ilist = [0, 1], list_firstneigh = (\<lambda>i. if i = 0 then [1] else [0]),
     neighmask = 1073741823, pair_cutsq = (\<lambda>a b. 1), pair_anypair = PairPeriPMB,
     domain_xperiodic = True, domain_yperiodic = False, domain_zperiodic = False,
     lattice_xlattice = 1, comm_swaps = [], fresh_int = (\<lambda>k. 0), fresh_real = (\<lambda>k. 0),
     dbl_sub = (\<lambda>a b. a - b), dbl_mul = (\<lambda>a b. a * b), dbl_add = (\<lambda>a b. a + b),
     dbl_sqrt = sqrt\<rparr>"

text \<open>
  The same two particles with horizon 2 and lattice spacing 1, and a store in which each
  is bonded to the other at distance 1, two half lattice spacings inside the horizon.
\<close>

definition ex_env2 :: env where
  "ex_env2 = ex_env\<lparr>pair_cutsq := (\<lambda>a b. 4)\<rparr>"

definition ex_bonded :: store where
  "ex_bonded = \<lparr>first = 0, maxpartner = 1, npartner = [1, 1],
     partner = [[2], [1]], r0 = [[1], [1]], vinter = [1, 1], wvolume = [0, 0]\<rparr>"

text \<open>A store with two local slots and one ghost slot.\<close>

definition ex_ghost :: store where
  "ex_ghost = \<lparr>first = 0, maxpartner = 1, npartner = [0, 0, 0],
     partner = [[0], [0], [0]], r0 = [[0], [0], [0]], vinter = [0, 0, 0],
     wvolume = [1, 2, 0]\<rparr>"

text \<open>
  The store of \<open>ex_env\<close> as the constructor leaves it, and as the build leaves it: one
  bond each, of length 1, and weighted volume 1/2 (the bond lies on the horizon).
\<close>

definition ex_new :: store where
  "ex_new = \<lparr>first = 1, maxpartner = 1, npartner = [0, 0],
     partner = [[0], [0]], r0 = [[0], [0]], vinter = [0, 0], wvolume = [0, 0]\<rparr>"

definition ex_built :: store where
  "ex_built = \<lparr>first = 0, maxpartner = 1, npartner = [1, 1],
     partner = [[2], [1]], r0 = [[1], [1]], vinter = [1, 1], wvolume = [1 / 2, 1 / 2]\<rparr>"

text \<open>
  A second rank, whose two particles are farther apart than its cutoff, and a rank whose
  neighbour list gives particle 1 twice as a candidate of particle 0, as two periodic
  images of one partner would be.
\<close>

definition ex_far :: env where
  "ex_far = ex_env\<lparr>pair_cutsq := (\<lambda>a b. 1 / 4)\<rparr>"

definition ex_dup :: env where
  "ex_dup = ex_env\<lparr>list_firstneigh := (\<lambda>i. if i = 0 then [1, 1] else [0])\<rparr>"

definition ex_dup_bonds :: store where
  "ex_dup_bonds = \<lparr>first = 0, maxpartner = 2, npartner = [2, 1],
     partner = [[2, 2], [1, 0]], r0 = [[1, 1], [1, 0]], vinter = [2, 1], wvolume = [0, 0]\<rparr>"


text \<open>
  A rank on which rounding decides the cutoff test. \<open>ex_d07\<close> is the double nearest to
  0.7 and \<open>ex_d049\<close> the double that the product of \<open>ex_d07\<close> with itself rounds to,
  which is less than the product; \<open>ex_d049\<close> is also the squared cutoff of type 1 with
  type 1, and its square root rounds to \<open>ex_d07\<close>. The local particle 0 is at
  \<open>(0, 1, 0)\<close> and has three ghost candidates: particle 1 of type 1 at
  \<open>(ex_d07, 1, 0)\<close>; particle 2 of type 2 at \<open>(2, 4, 6)\<close>, at distance 7, the cutoff of
  type 1 with type 2, listed with a bit above \<open>NEIGHMASK\<close> set; and particle 3 of type 2
  at \<open>(2, 4, 7)\<close>. All other operations of this run are exact in double.
\<close>

definition ex_d07 :: real where
  "ex_d07 = 3152519739159347 / 4503599627370496"

definition ex_d049 :: real where
  "ex_d049 = 8827055269646171 / 18014398509481984"

definition ex_round :: env where
  "ex_round = \<lparr>atom_nlocal = 1, atom_nmax = 4,
     atom_x = (\<lambda>i k. if i = 1 then (if k = 0 then ex_d07 else if k = 1 then 1 else 0)
                      else if i = 2 then (if k = 0 then 2 else if k = 1 then 4 else 6)
                      else if i = 3 then (if k = 0 then 2 else if k = 1 then 4 else 7)
                      else (if k = 1 then 1 else 0)),
     atom_x0 = (\<lambda>i k. 0),
     atom_vfrac = (\<lambda>i. 1), atom_type = (\<lambda>i. if i \<le> 1 then 1 else 2),
     atom_tag = (\<lambda>i. i + 1),
     atom_map = (\<lambda>t. if 1 \<le> t \<and> t \<le> 4 then t - 1 else - 1),
     list_ilist = [0],
     list_firstneigh = (\<lambda>i. if i = 0 then [1, 1073741826, 3] else []),
     neighmask = 1073741823,
     pair_cutsq = (\<lambda>a b. if a = 1 \<and> b = 1 then ex_d049 else 49),
     pair_anypair = PairPeriPMB,
     domain_xperiodic = False, domain_yperiodic = False, domain_zperiodic = False,
     lattice_xlattice = 1, comm_swaps = [], fresh_int = (\<lambda>k. 0), fresh_real = (\<lambda>k. 0),
     dbl_sub = (\<lambda>a b. a - b),
     dbl_mul = (\<lambda>a b. if a = - ex_d07 \<and> b = - ex_d07 then ex_d049 else a * b),
     dbl_add = (\<lambda>a b. a + b),
     dbl_sqrt = (\<lambda>a. if a = ex_d049 then ex_d07 else sqrt a)\<rparr>"

definition ex_round_new :: store where
  "ex_round_new = \<lparr>first = 1, maxpartner = 1, npartner = [0, 0, 0, 0],
     partner = [[0], [0], [0], [0]], r0 = [[0], [0], [0], [0]],
     vinter = [0, 0, 0, 0], wvolume = [0, 0, 0, 0]\<rparr>"
section \<open>Proofs\<close>

subsection \<open>Basic facts\<close>

lemma andThen_Inr [simp]: "andThen (Inr v) f = f v"
  by (simp add: andThen_def)

lemma andThen_Inl [simp]: "andThen (Inl e) f = Inl e"
  by (simp add: andThen_def)

lemma andThen_eq_Inr: "andThen m f = Inr y \<longleftrightarrow> (\<exists>v. m = Inr v \<and> f v = Inr y)"
  by (cases m) simp_all

lemma foldE_append: "foldE f (xs @ ys) s = andThen (foldE f xs s) (foldE f ys)"
  by (induction xs arbitrary: s) (simp_all add: andThen_def split: sum.splits)

lemma count_up_0 [simp]: "count_up 0 = []"
  by (simp add: count_up_def)

lemma count_up_Suc [simp]: "count_up (1 + int k) = count_up (int k) @ [int k]"
proof -
  have "nat (1 + int k) = Suc k" by linarith
  then show ?thesis by (simp add: count_up_def)
qed

lemma count_up_int: "count_up (int k) = map int [0..<k]"
  by (simp add: count_up_def)

lemma count_up_neg: "n \<le> 0 \<Longrightarrow> count_up n = []"
  by (simp add: count_up_def)

lemma rd_ok: "0 \<le> i \<Longrightarrow> nat i < length xs \<Longrightarrow> rd xs i = Inr (xs ! nat i)"
  by (simp add: rd_def)

lemma wr_ok: "0 \<le> i \<Longrightarrow> nat i < length xs \<Longrightarrow> wr xs i v = Inr (xs[nat i := v])"
  by (simp add: wr_def)

lemma rd2_ok:
  "0 \<le> i \<Longrightarrow> nat i < length xss \<Longrightarrow> 0 \<le> k \<Longrightarrow> nat k < length (xss ! nat i) \<Longrightarrow>
   rd2 xss i k = Inr (xss ! nat i ! nat k)"
  by (simp add: rd2_def rd_ok)

lemma wr2_ok:
  "0 \<le> i \<Longrightarrow> nat i < length xss \<Longrightarrow> 0 \<le> k \<Longrightarrow> nat k < length (xss ! nat i) \<Longrightarrow>
   wr2 xss i k v = Inr (xss[nat i := (xss ! nat i)[nat k := v]])"
  by (simp add: wr2_def rd_ok wr_ok)

lemma cast_int_of_int [simp]: "cast_int (of_int n) = n"
  by (simp add: cast_int_def)

lemma cast_int_of_nat [simp]: "cast_int (real n) = int n"
  by (simp add: cast_int_def)

lemma length_words [simp]: "length (words bs) = 2 * length bs"
  by (induction bs) (simp_all add: words_def)

lemma words_append [simp]: "words (as @ bs) = words as @ words bs"
  by (simp add: words_def)

lemma words_nth:
  "q < length bs \<Longrightarrow> words bs ! (2 * q) = of_int (fst (bs ! q)) \<and> words bs ! Suc (2 * q) = snd (bs ! q)"
proof (induction bs arbitrary: q)
  case Nil
  then show ?case by simp
next
  case (Cons b bs)
  show ?case
  proof (cases q)
    case 0
    then show ?thesis by (simp add: words_def)
  next
    case (Suc q')
    with Cons.prems have "q' < length bs" by simp
    from Cons.IH [OF this] Suc show ?thesis by (simp add: words_def)
  qed
qed

lemma pack_exchange_loop:
  assumes "0 \<le> i" "nat i < length (partner st)" "nat i < length (r0 st)"
    and "k \<le> length (partner st ! nat i)" "k \<le> length (r0 st ! nat i)"
  shows "foldE (pack_exchange_bond st i) (count_up (int k)) buf =
         Inr (buf @ words (filter live (zip (take k (partner st ! nat i)) (take k (r0 st ! nat i)))))"
  using assms(4,5)
proof (induction k)
  case 0
  then show ?case by (simp add: words_def)
next
  case (Suc k)
  then have k: "k < length (partner st ! nat i)" "k < length (r0 st ! nat i)" by simp_all
  have step: "pack_exchange_bond st i (int k) b =
      Inr (b @ words (filter live [(partner st ! nat i ! k, r0 st ! nat i ! k)]))" for b
    using assms(1-3) k by (simp add: pack_exchange_bond_def rd2_ok live_def words_def)
  from Suc k show ?case
    by (simp add: foldE_append step take_Suc_conv_app_nth del: filter.simps)
qed


lemma unpack_exchange_loop:
  assumes "0 \<le> j" "nat j < length (partner st)" "nat j < length (r0 st)" "0 \<le> m"
    and "k \<le> length (partner st ! nat j)" "k \<le> length (r0 st ! nat j)"
    and "nat m + 2 * k \<le> length buf"
  shows "foldE (unpack_exchange_bond buf j) (count_up (int k)) (st, m) =
         Inr (st\<lparr>partner := (partner st)[nat j :=
                     map (\<lambda>q. cast_int (buf ! (nat m + 2 * q))) [0..<k] @ drop k (partner st ! nat j)],
                 r0 := (r0 st)[nat j :=
                     map (\<lambda>q. buf ! Suc (nat m + 2 * q)) [0..<k] @ drop k (r0 st ! nat j)]\<rparr>,
              m + 2 * int k)"
  using assms(5-7)
proof (induction k)
  case 0
  then show ?case by simp
next
  case (Suc k)
  then have k: "k < length (partner st ! nat j)" "k < length (r0 st ! nat j)"
    and b: "nat m + 2 * k + 1 < length buf" by simp_all
  have m1: "nat (m + 2 * int k) = nat m + 2 * k" "nat (m + 2 * int k + 1) = Suc (nat m + 2 * k)"
    using assms(4) by linarith+
  have upd: "(xs @ drop k row)[k := v] = (xs @ [v]) @ drop (Suc k) row"
    if "length xs = k" "k < length row" for xs row :: "'a list" and v
    using that by (simp add: list_update_append flip: Cons_nth_drop_Suc)
  show ?case
    using Suc k b assms(1-4)
    by (simp add: foldE_append unpack_exchange_bond_def rd_ok wr2_ok m1 upd)
qed


subsection \<open>Migration round trip\<close>

lemma count_up_nat: "count_up n = count_up (int (nat n))"
  by (simp add: count_up_def)

lemma sized_rows:
  assumes "sized st n" "nat i < n"
  shows "length (partner st ! nat i) = nat (maxpartner st)" "length (r0 st ! nat i) = nat (maxpartner st)"
  using assms by (simp_all add: sized_def list_all_length)

lemma sized_lengths:
  assumes "sized st n"
  shows "length (npartner st) = n" "length (partner st) = n" "length (r0 st) = n"
    "length (vinter st) = n" "length (wvolume st) = n"
  using assms by (simp_all add: sized_def)

lemma words_fst: "map (\<lambda>q. cast_int ((words bs @ t) ! (2 * q))) [0..<length bs] = map fst bs"
  by (rule nth_equalityI) (simp_all add: nth_append words_nth)

lemma words_snd: "map (\<lambda>q. (words bs @ t) ! Suc (2 * q)) [0..<length bs] = map snd bs"
  by (rule nth_equalityI) (simp_all add: nth_append words_nth)

text \<open>
  Claim C2. Let slot \<open>i\<close> of the sending store hold at most \<open>maxpartner\<close> bonds, and let
  the receiving store share that bound. Then \<open>pack_exchange\<close> succeeds, \<open>unpack_exchange\<close>
  of its buffer into any slot \<open>j\<close> of the receiving store succeeds and reads exactly as
  many words as were written, and slot \<open>j\<close> then holds the live bonds of slot \<open>i\<close>
  (the pairs whose tag is not 0) in their original order, and its \<open>vinter\<close> and
  \<open>wvolume\<close>.
\<close>

theorem migration_roundtrip:
  assumes src: "sized src ns" "0 \<le> i" "nat i < ns"
    and np: "npartner src ! nat i \<le> maxpartner src"
    and dst: "sized dst nd" "0 \<le> j" "nat j < nd"
    and mp: "maxpartner dst = maxpartner src"
  shows "\<exists>buf dst'. pack_exchange src i = Inr buf \<and>
           unpack_exchange dst j buf = Inr (dst', int (length buf)) \<and>
           bonds dst' j = filter live (bonds src i) \<and>
           npartner dst' ! nat j = int (length (filter live (bonds src i))) \<and>
           vinter dst' ! nat j = vinter src ! nat i \<and>
           wvolume dst' ! nat j = wvolume src ! nat i"
proof -
  define k where "k = nat (npartner src ! nat i)"
  define bs where "bs = filter live (bonds src i)"
  define c where "c = length bs"
  define buf where "buf = of_int (int c) # words bs @ [vinter src ! nat i, wvolume src ! nat i]"
  note sl = sized_lengths [OF src(1)] sized_rows [OF src(1,3)]
  note dl = sized_lengths [OF dst(1)] sized_rows [OF dst(1,3)]
  have k: "k \<le> nat (maxpartner src)" using np by (simp add: k_def)
  have bs: "bs = filter live (zip (take k (partner src ! nat i)) (take k (r0 src ! nat i)))"
    by (simp add: bs_def bonds_def k_def Let_def)
  have "c \<le> length (zip (take k (partner src ! nat i)) (take k (r0 src ! nat i)))"
    unfolding c_def bs by (rule length_filter_le)
  with k have c: "c \<le> nat (maxpartner src)" by (simp add: sl)
  have loop: "foldE (pack_exchange_bond src i) (count_up (npartner src ! nat i)) [0] = Inr (0 # words bs)"
    using pack_exchange_loop [of i src k "[0]"] src(2,3) k
    by (simp add: sl bs count_up_nat [of "npartner src ! nat i"] k_def)
  have pack: "pack_exchange src i = Inr buf"
    using src(2,3) by (simp add: pack_exchange_def rd_ok sl loop buf_def c_def)
  define dst1 where "dst1 = dst\<lparr>npartner := (npartner dst)[nat j := int c]\<rparr>"
  have uloop: "foldE (unpack_exchange_bond buf j) (count_up (int c)) (dst1, 1) =
      Inr (dst1\<lparr>partner := (partner dst)[nat j := map fst bs @ drop c (partner dst ! nat j)],
                r0 := (r0 dst)[nat j := map snd bs @ drop c (r0 dst ! nat j)]\<rparr>, 1 + 2 * int c)"
    using unpack_exchange_loop [of j dst1 1 c buf] dst(2,3) c
    by (simp add: dst1_def dl mp buf_def c_def words_fst words_snd)
  define dst' where "dst' = dst1\<lparr>partner := (partner dst)[nat j := map fst bs @ drop c (partner dst ! nat j)],
      r0 := (r0 dst)[nat j := map snd bs @ drop c (r0 dst ! nat j)],
      vinter := (vinter dst)[nat j := vinter src ! nat i],
      wvolume := (wvolume dst)[nat j := wvolume src ! nat i]\<rparr>"
  have n1: "nat (1 + 2 * int c) = Suc (2 * c)" "nat (2 + 2 * int c) = Suc (Suc (2 * c))"
    by linarith+
  have lb: "length buf = 2 * c + 3" by (simp add: buf_def c_def)
  have b0: "buf ! 0 = real c" by (simp add: buf_def)
  have bv: "buf ! Suc (2 * c) = vinter src ! nat i"
    and bw: "buf ! Suc (Suc (2 * c)) = wvolume src ! nat i"
    by (simp_all add: buf_def c_def nth_append)
  have unpack: "unpack_exchange dst j buf = Inr (dst', int (length buf))"
    using dst(2,3)
    by (simp add: unpack_exchange_def rd_ok wr_ok dl lb b0 uloop [unfolded dst1_def]
        n1 bv bw dst1_def dst'_def)
  have "bonds dst' j = bs"
    using dst(3) by (simp add: bonds_def dst'_def dst1_def dl c_def zip_map_fst_snd Let_def)
  moreover have "npartner dst' ! nat j = int c"
    using dst(3) by (simp add: dst'_def dst1_def dl)
  moreover have "vinter dst' ! nat j = vinter src ! nat i" "wvolume dst' ! nat j = wvolume src ! nat i"
    using dst(3) by (simp_all add: dst'_def dst1_def dl)
  ultimately show ?thesis
    using pack unpack by (auto simp: bs_def c_def)
qed

text \<open>
  The round trip on \<open>ex_store\<close>: slot 0 has the bonds (7, 1), (0, 2), (9, 3/2); the
  buffer has 7 words and the tombstone is gone from slot 1.
\<close>

theorem migration_roundtrip_witness:
  "sized ex_store 2 \<and> npartner ex_store ! nat 0 \<le> maxpartner ex_store \<and>
   pack_exchange ex_store 0 = Inr [2, 7, 1, 9, 3 / 2, 5, 4] \<and>
   (\<exists>dst'. unpack_exchange ex_store 1 [2, 7, 1, 9, 3 / 2, 5, 4] = Inr (dst', 7) \<and>
      bonds dst' 1 = [(7, 1), (9, 3 / 2)] \<and> npartner dst' ! nat 1 = 2 \<and>
      vinter dst' ! nat 1 = 5 \<and> wvolume dst' ! nat 1 = 4)"
proof -
  have s: "sized ex_store 2"
    by (simp add: sized_def ex_store_def)
  have n: "npartner ex_store ! nat 0 \<le> maxpartner ex_store"
    by (simp add: ex_store_def)
  have b: "filter live (bonds ex_store 0) = [(7, 1), (9, 3 / 2)]"
    by (simp add: bonds_def ex_store_def live_def)
  have p: "pack_exchange ex_store 0 = Inr [2, 7, 1, 9, 3 / 2, 5, 4]"
    by (simp add: pack_exchange_def pack_exchange_bond_def rd_def rd2_def count_up_def
        upt_rec ex_store_def)
  from migration_roundtrip [of ex_store 2 0 ex_store 2 1, OF s _ _ n s] s n p b
  show ?thesis by (simp add: ex_store_def)
qed

subsection \<open>Restart round trip\<close>

lemma pack_restart_loop:
  assumes "0 \<le> i" "nat i < length (partner st)" "nat i < length (r0 st)"
    and "k \<le> length (partner st ! nat i)" "k \<le> length (r0 st ! nat i)"
  shows "foldE (pack_restart_bond st i) (count_up (int k)) buf =
         Inr (buf @ words (zip (take k (partner st ! nat i)) (take k (r0 st ! nat i))))"
  using assms(4,5)
proof (induction k)
  case 0
  then show ?case by (simp add: words_def)
next
  case (Suc k)
  then have k: "k < length (partner st ! nat i)" "k < length (r0 st ! nat i)" by simp_all
  have step: "pack_restart_bond st i (int k) b =
      Inr (b @ words [(partner st ! nat i ! k, r0 st ! nat i ! k)])" for b
    using assms(1-3) k by (simp add: pack_restart_bond_def rd2_ok words_def)
  from Suc k show ?case
    by (simp add: foldE_append step take_Suc_conv_app_nth)
qed

lemma unpack_restart_bond_eq:
  assumes "0 \<le> j" "nat j < length extra"
  shows "unpack_restart_bond extra j = unpack_exchange_bond (extra ! nat j) j"
  using assms
  by (intro ext) (simp add: unpack_restart_bond_def unpack_exchange_bond_def rd2_def rd_ok
      split: prod.splits)

lemma unpack_restart_skip_loop:
  assumes "0 \<le> j" "nat j < length extra"
  shows "list_all foreign recs \<Longrightarrow> extra ! nat j = concat recs @ rest \<Longrightarrow>
         foldE (unpack_restart_skip extra j) (count_up (int (length recs))) 0 =
         Inr (int (length (concat recs)))"
proof (induction recs arbitrary: rest rule: rev_induct)
  case Nil
  then show ?case by simp
next
  case (snoc r recs)
  from snoc.prems have rf: "foreign r" and recs: "list_all foreign recs"
    by simp_all
  from rf have r: "r \<noteq> []" "cast_int (hd r) = int (length r)"
    by (simp_all add: foreign_def)
  from snoc.prems have row: "extra ! nat j = concat recs @ (r @ rest)" by simp
  have "(concat recs @ r @ rest) ! length (concat recs) = hd r"
    using r(1) by (simp add: nth_append hd_conv_nth)
  then have "unpack_restart_skip extra j (int (length recs)) (int (length (concat recs))) =
      Inr (int (length (concat recs)) + int (length r))"
    using assms r by (simp add: unpack_restart_skip_def rd2_def rd_ok row rd_def)
  with snoc.IH [OF recs row] show ?case
    by (simp add: foldE_append)
qed


lemma length_grow1 [simp]: "length (grow1 f n xs) = n"
  by (simp add: grow1_def)

lemma length_grow2 [simp]: "length (grow2 f n1 n2 xss) = n1"
  by (simp add: grow2_def)

lemma grow2_row: "i < n1 \<Longrightarrow> length (grow2 f n1 n2 xss ! i) = n2"
proof -
  assume i: "i < n1"
  then have "n2 + i * n2 \<le> n1 * n2"
    by (metis Suc_leI mult_Suc mult_le_mono1)
  with i show ?thesis by (simp add: grow2_def Let_def)
qed

lemma sized_grow_arrays: "sized (grow_arrays e nmax st) (nat nmax)"
  by (simp add: sized_def grow_arrays_def list_all_length grow2_row)

lemma grow_arrays_fields [simp]:
  "first (grow_arrays e nmax st) = first st" "maxpartner (grow_arrays e nmax st) = maxpartner st"
  by (simp_all add: grow_arrays_def)

lemma length_bonds:
  assumes "sized st n" "nat i < n" "npartner st ! nat i \<le> maxpartner st"
  shows "length (bonds st i) = nat (npartner st ! nat i)"
  using assms sized_rows [OF assms(1,2)] by (simp add: bonds_def Let_def)

text \<open>
  Claim C5. The global header written by rank 0 is 16 bytes long and holds the built flag
  and \<open>maxpartner\<close>; \<open>restart\<close> of it into any store \<open>t0\<close> restores both and leaves
  storage of \<open>atom->nmax\<close> slots with rows of the restored \<open>maxpartner\<close>. For a slot
  \<open>i\<close> with at most \<open>maxpartner\<close> bonds, \<open>pack_restart\<close> writes the record
  \<open>[2 * npartner + 4, npartner, (tag, r0) ..., vinter, wvolume]\<close>, tombstones included,
  whose first word is its length. \<open>unpack_restart\<close> of that record, found in
  \<open>atom->extra\<close> after the records \<open>recs\<close> of other fixes, into slot \<open>j\<close> of any
  store \<open>t1\<close> sized for the same \<open>maxpartner\<close> (the restored store, or that store after
  other slots have been read) succeeds, gives slot \<open>j\<close> the state of slot \<open>i\<close>, keeps
  the flag, the bound and the sizes, and leaves every other slot as it was.
\<close>

theorem restart_roundtrip:
  assumes st: "sized st ns" "0 \<le> i" "nat i < ns"
    and np: "npartner st ! nat i \<le> maxpartner st"
    and t1: "sized t1 nd" "maxpartner t1 = maxpartner st" "0 \<le> j" "nat j < nd"
    and ex: "nat j < length extra" "list_all foreign recs"
  shows "\<exists>hdr t rec.
           write_restart st 0 = Some (16, hdr) \<and>
           restart e t0 hdr = Inr t \<and>
           first t = first st \<and> maxpartner t = maxpartner st \<and> sized t (nat (atom_nmax e)) \<and>
           pack_restart st i = Inr rec \<and>
           rec = of_int (2 * (npartner st ! nat i) + 4) # of_int (npartner st ! nat i) #
                 words (bonds st i) @ [vinter st ! nat i, wvolume st ! nat i] \<and>
           (0 \<le> npartner st ! nat i \<longrightarrow> int (length rec) = 2 * (npartner st ! nat i) + 4) \<and>
           (extra ! nat j = concat recs @ rec @ rest \<longrightarrow>
             (\<exists>t'. unpack_restart extra t1 j (int (length recs)) = Inr t' \<and>
                   slot t' j = slot st i \<and>
                   first t' = first t1 \<and> maxpartner t' = maxpartner t1 \<and> sized t' nd \<and>
                   (\<forall>k. 0 \<le> k \<and> k \<noteq> j \<longrightarrow> slot t' k = slot t1 k)))"
proof -
  define np where "np = npartner st ! nat i"
  define bs where "bs = bonds st i"
  define v where "v = vinter st ! nat i"
  define w where "w = wvolume st ! nat i"
  define rec where "rec = of_int (2 * np + 4) # of_int np # words bs @ [v, w]"
  define hdr :: "real list" where "hdr = [of_int (first st), of_int (maxpartner st)]"
  define t where "t = grow_arrays e (atom_nmax e) (t0\<lparr>first := first st, maxpartner := maxpartner st\<rparr>)"
  note sl = sized_lengths [OF st(1)] sized_rows [OF st(1,3)]
  note tl = sized_lengths [OF t1(1)] sized_rows [OF t1(1,4)]
  have lbs: "length bs = nat np"
    unfolding bs_def np_def by (rule length_bonds [OF st(1,3) np])
  have k: "nat np \<le> nat (maxpartner st)" using np by (simp add: np_def)
  have bs: "bs = zip (take (nat np) (partner st ! nat i)) (take (nat np) (r0 st ! nat i))"
    by (simp add: bs_def bonds_def np_def Let_def)
  have w1: "write_restart st 0 = Some (16, hdr)"
    by (simp add: write_restart_def hdr_def)
  have w2: "restart e t0 hdr = Inr t"
    by (simp add: restart_def hdr_def rd_def t_def)
  have w3: "first t = first st" "maxpartner t = maxpartner st" "sized t (nat (atom_nmax e))"
    by (simp_all add: t_def sized_grow_arrays)
  have loop: "foldE (pack_restart_bond st i) (count_up np) b = Inr (b @ words bs)" for b
    using pack_restart_loop [of i st "nat np" b] st(2,3) k
    by (simp add: sl bs count_up_nat [of np])
  have pack: "pack_restart st i = Inr rec"
    using st(2,3) by (simp add: pack_restart_def rd_ok sl loop rec_def flip: np_def v_def w_def)
  have len: "0 \<le> np \<longrightarrow> int (length rec) = 2 * np + 4"
    by (simp add: rec_def lbs)
  have unpack: "\<exists>t'. unpack_restart extra t1 j (int (length recs)) = Inr t' \<and>
                   slot t' j = slot st i \<and>
                   first t' = first t1 \<and> maxpartner t' = maxpartner t1 \<and> sized t' nd \<and>
                   (\<forall>k. 0 \<le> k \<and> k \<noteq> j \<longrightarrow> slot t' k = slot t1 k)"
    if row: "extra ! nat j = concat recs @ rec @ rest"
  proof -
    define L where "L = length (concat recs)"
    define buf where "buf = extra ! nat j"
    have buf: "buf = concat recs @ rec @ rest" by (simp add: buf_def row)
    have skip: "foldE (unpack_restart_skip extra j) (count_up (int (length recs))) 0 = Inr (int L)"
      unfolding L_def by (rule unpack_restart_skip_loop [OF t1(3) ex(1,2) row])
    have lb: "L + 2 * nat np + 4 \<le> length buf" by (simp add: buf rec_def L_def lbs)
    have b1: "buf ! Suc L = of_int np"
      by (simp add: buf rec_def L_def nth_append)
    have bq: "buf ! (L + 2 + q) = (words bs @ [v, w]) ! q" if "q < 2 * nat np + 2" for q
      using that by (auto simp: buf rec_def L_def nth_append lbs nth_Cons')
    have bv: "buf ! (L + 2 + 2 * nat np) = v" and bw: "buf ! (L + 2 + 2 * nat np + 1) = w"
      using bq [of "2 * nat np"] bq [of "2 * nat np + 1"] by (simp_all add: nth_append lbs)
    have mf: "map (\<lambda>q. cast_int (buf ! (L + 2 + 2 * q))) [0..<nat np] = map fst bs"
    proof (rule nth_equalityI)
      fix q assume "q < length (map (\<lambda>q. cast_int (buf ! (L + 2 + 2 * q))) [0..<nat np])"
      then have q: "q < nat np" by simp
      then have "buf ! (L + 2 + 2 * q) = (words bs @ [v, w]) ! (2 * q)"
        by (intro bq) simp
      with q show "map (\<lambda>q. cast_int (buf ! (L + 2 + 2 * q))) [0..<nat np] ! q = map fst bs ! q"
        by (simp add: nth_append lbs words_nth)
    qed (simp add: lbs)
    have ms: "map (\<lambda>q. buf ! Suc (L + 2 + 2 * q)) [0..<nat np] = map snd bs"
    proof (rule nth_equalityI)
      fix q assume "q < length (map (\<lambda>q. buf ! Suc (L + 2 + 2 * q)) [0..<nat np])"
      then have q: "q < nat np" by simp
      then have "buf ! (L + 2 + Suc (2 * q)) = (words bs @ [v, w]) ! Suc (2 * q)"
        by (intro bq) simp
      with q show "map (\<lambda>q. buf ! Suc (L + 2 + 2 * q)) [0..<nat np] ! q = map snd bs ! q"
        by (simp add: nth_append lbs words_nth)
    qed (simp add: lbs)
    define t2 where "t2 = t1\<lparr>npartner := (npartner t1)[nat j := np]\<rparr>"
    have n2: "nat (int L + 2) = L + 2" "nat (int L + 1) = Suc L" by linarith+
    define m1 where "m1 = int L + 2 + 2 * int (nat np)"
    have uloop: "foldE (unpack_exchange_bond buf j) (count_up np) (t2, int L + 2) =
        Inr (t2\<lparr>partner := (partner t1)[nat j := map fst bs @ drop (nat np) (partner t1 ! nat j)],
                r0 := (r0 t1)[nat j := map snd bs @ drop (nat np) (r0 t1 ! nat j)]\<rparr>,
             m1)"
      unfolding m1_def
      using unpack_exchange_loop [of j t2 "int L + 2" "nat np" buf, unfolded n2 mf ms] t1(3,4) k lb
      by (simp add: t2_def tl t1(2) count_up_nat [of np])
    define t' where "t' = t2\<lparr>partner := (partner t1)[nat j := map fst bs @ drop (nat np) (partner t1 ! nat j)],
                r0 := (r0 t1)[nat j := map snd bs @ drop (nat np) (r0 t1 ! nat j)],
                vinter := (vinter t1)[nat j := v], wvolume := (wvolume t1)[nat j := w]\<rparr>"
    have n3: "nat m1 = L + 2 + 2 * nat np" "nat (m1 + 1) = L + 2 + 2 * nat np + 1" "0 \<le> m1"
      unfolding m1_def by linarith+
    have rdb: "rd2 extra j m = rd buf m" for m
      using t1(3) ex(1) by (simp add: rd2_def rd_ok buf_def)
    have "unpack_restart extra t1 j (int (length recs)) =
        andThen (foldE (unpack_exchange_bond buf j) (count_up np) (t2, int L + 2)) (\<lambda>sm.
          case sm of (s1, m) \<Rightarrow>
            andThen (rd buf m) (\<lambda>v.
            andThen (wr (vinter s1) j v) (\<lambda>vi'.
            andThen (rd buf (m + 1)) (\<lambda>w.
            andThen (wr (wvolume s1) j w) (\<lambda>wv'.
              Inr (s1\<lparr>vinter := vi', wvolume := wv'\<rparr>))))))"
      using t1(3,4) lb
      by (simp add: unpack_restart_def skip rdb rd_ok n2 b1 wr_ok tl
          unpack_restart_bond_eq [OF t1(3) ex(1)] t2_def flip: buf_def)
    also have "\<dots> = Inr t'"
      using t1(3,4) lb bv bw
      by (simp add: uloop) (simp add: rd_ok n3 wr_ok tl t2_def t'_def)
    finally have u: "unpack_restart extra t1 j (int (length recs)) = Inr t'" .
    have "slot st i = (np, bs, v, w)"
      by (simp add: slot_def np_def bs_def v_def w_def)
    moreover have "slot t' j = (np, bs, v, w)"
      using t1(4) by (simp add: slot_def bonds_def Let_def t'_def t2_def tl lbs zip_map_fst_snd)
    ultimately have s1: "slot t' j = slot st i" by simp
    have s2: "first t' = first t1" "maxpartner t' = maxpartner t1"
      by (simp_all add: t'_def t2_def)
    have s3: "sized t' nd"
      using t1(1,4) k
      by (auto simp: sized_def t'_def t2_def list_all_length nth_list_update lbs t1(2))
    have s4: "slot t' k = slot t1 k" if "0 \<le> k" "k \<noteq> j" for k
    proof -
      from that t1(3) have "nat k \<noteq> nat j" by linarith
      then show ?thesis
        by (simp add: slot_def bonds_def Let_def t'_def t2_def)
    qed
    from u s1 s2 s3 s4 show ?thesis by blast
  qed
  from w1 w2 w3 pack len unpack show ?thesis
    unfolding rec_def np_def bs_def v_def w_def by blast
qed

text \<open>
  The round trip on \<open>ex_store\<close>, with the record of slot 0 read back as the second
  record of the row \<open>ex_extra[1]\<close>.
\<close>

theorem restart_roundtrip_witness:
  "sized ex_store 2 \<and> list_all foreign [[3, 8, 8]] \<and>
   write_restart ex_store 0 = Some (16, [0, 3]) \<and>
   pack_restart ex_store 0 = Inr [10, 3, 7, 1, 0, 2, 9, 3 / 2, 5, 4] \<and>
   (\<exists>t'. unpack_restart ex_extra ex_store 1 1 = Inr t' \<and> slot t' 1 = slot ex_store 0)"
proof -
  have s: "sized ex_store 2"
    by (simp add: sized_def ex_store_def)
  have n: "npartner ex_store ! nat 0 \<le> maxpartner ex_store"
    by (simp add: ex_store_def)
  have f: "list_all foreign [[3, 8, 8]]"
    by (simp add: foreign_def cast_int_def)
  have b: "bonds ex_store 0 = [(7, 1), (0, 2), (9, 3 / 2)]"
    by (simp add: bonds_def ex_store_def)
  have x: "nat 1 < length ex_extra" "ex_extra ! nat 1 =
      concat [[3, 8, 8]] @ [10, 3, 7, 1, 0, 2, 9, 3 / 2, 5, 4] @ []"
    by (simp_all add: ex_extra_def)
  from restart_roundtrip [of ex_store 2 0 ex_store 2 1 ex_extra "[[3, 8, 8]]" ex_env ex_store "[]",
      OF s _ _ n s _ _ _ x(1) f]
  obtain hdr t rec where
    h: "write_restart ex_store 0 = Some (16, hdr)" "pack_restart ex_store 0 = Inr rec"
      "rec = of_int (2 * (npartner ex_store ! nat 0) + 4) # of_int (npartner ex_store ! nat 0) #
                 words (bonds ex_store 0) @ [vinter ex_store ! nat 0, wvolume ex_store ! nat 0]"
      "ex_extra ! nat 1 = concat [[3, 8, 8]] @ rec @ [] \<longrightarrow>
          (\<exists>t'. unpack_restart ex_extra ex_store 1 (int (length [[3::real, 8, 8]])) = Inr t' \<and>
                   slot t' 1 = slot ex_store 0 \<and>
                   first t' = first ex_store \<and> maxpartner t' = maxpartner ex_store \<and>
                   sized t' 2 \<and> (\<forall>k. 0 \<le> k \<and> k \<noteq> 1 \<longrightarrow> slot t' k = slot ex_store k))"
    by auto
  from h(3) have r: "rec = [10, 3, 7, 1, 0, 2, 9, 3 / 2, 5, 4]"
    by (simp add: b words_def) (simp add: ex_store_def)
  from h(1) have w: "hdr = [0, 3]"
    by (simp add: write_restart_def ex_store_def)
  from h(4) x(2) r
  have "\<exists>t'. unpack_restart ex_extra ex_store 1 1 = Inr t' \<and> slot t' 1 = slot ex_store 0"
    by auto
  with s f h(1,2) r w show ?thesis by simp
qed

subsection \<open>The weighted volume\<close>

lemma wvolume_add_ok:
  "0 \<le> i \<Longrightarrow> nat i < length (wvolume st) \<Longrightarrow>
   wvolume_add st i c = Inr (st\<lparr>wvolume := (wvolume st)[nat i := wvolume st ! nat i + c]\<rparr>)"
  by (simp add: wvolume_add_def rd_ok wr_ok)

lemma wvolume_bond_skip:
  assumes "0 \<le> i" "nat i < length (partner st)" "0 \<le> jj" "nat jj < length (partner st ! nat i)"
    and "\<not> resolvable e st i jj"
  shows "wvolume_bond e i jj st = Inr st"
  using assms by (auto simp: wvolume_bond_def rd2_ok resolvable_def Let_def)

lemma wvolume_bond_live:
  assumes "0 \<le> i" "nat i < length (partner st)" "0 \<le> jj" "nat jj < length (partner st ! nat i)"
    and "nat i < length (r0 st)" "nat jj < length (r0 st ! nat i)" "nat i < length (wvolume st)"
    and "resolvable e st i jj"
  shows "wvolume_bond e i jj st =
         Inr (st\<lparr>wvolume := (wvolume st)[nat i := wvolume st ! nat i + contribution e st i jj]\<rparr>)"
  using assms
  by (cases "pair_anypair e")
    (simp_all add: wvolume_bond_def rd2_ok resolvable_def Let_def wvolume_add_ok contribution_def
      influence_def)


lemma contribution_wvolume [simp]:
  "contribution e (st\<lparr>wvolume := wv\<rparr>) i jj = contribution e st i jj"
  "resolvable e (st\<lparr>wvolume := wv\<rparr>) i jj = resolvable e st i jj"
  by (simp_all add: contribution_def resolvable_def)

lemma wvolume_bond_step:
  assumes "0 \<le> i" "nat i < length (partner st)" "0 \<le> jj" "nat jj < length (partner st ! nat i)"
    and "nat i < length (r0 st)" "nat jj < length (r0 st ! nat i)" "nat i < length (wvolume st)"
  shows "wvolume_bond e i jj st =
         Inr (st\<lparr>wvolume := (wvolume st)[nat i := wvolume st ! nat i +
                (if resolvable e st i jj then contribution e st i jj else 0)]\<rparr>)"
proof (cases "resolvable e st i jj")
  case True
  with wvolume_bond_live [OF assms True] show ?thesis by simp
next
  case False
  with wvolume_bond_skip [OF assms(1-4) False] show ?thesis by simp
qed

lemma wvolume_loop:
  assumes "0 \<le> i" "nat i < length (partner st)" "nat i < length (r0 st)"
    and "nat i < length (wvolume st)"
    and "k \<le> length (partner st ! nat i)" "k \<le> length (r0 st ! nat i)"
  shows "foldE (wvolume_bond e i) (count_up (int k)) st =
         Inr (st\<lparr>wvolume := (wvolume st)[nat i := wvolume st ! nat i +
                sum_list (map (contribution e st i)
                  (filter (resolvable e st i) (count_up (int k))))]\<rparr>)"
  using assms(5,6)
proof (induction k)
  case 0
  then show ?case by simp
next
  case (Suc k)
  then have k: "k < length (partner st ! nat i)" "k < length (r0 st ! nat i)" by simp_all
  define s1 where "s1 = st\<lparr>wvolume := (wvolume st)[nat i := wvolume st ! nat i +
                sum_list (map (contribution e st i)
                  (filter (resolvable e st i) (count_up (int k))))]\<rparr>"
  have "foldE (wvolume_bond e i) (count_up (int k)) st = Inr s1"
    using Suc k by (simp add: s1_def)
  moreover have "wvolume_bond e i (int k) s1 =
      Inr (s1\<lparr>wvolume := (wvolume s1)[nat i := wvolume s1 ! nat i +
                (if resolvable e s1 i (int k) then contribution e s1 i (int k) else 0)]\<rparr>)"
    using assms(1-4) k by (intro wvolume_bond_step) (simp_all add: s1_def)
  ultimately show ?case
    using assms(4) by (simp add: foldE_append s1_def add.assoc)
qed


lemma wvolume_atom_result:
  assumes "sized st n" "0 \<le> i" "nat i < n" "npartner st ! nat i \<le> maxpartner st"
  shows "wvolume_atom e i st =
         Inr (st\<lparr>wvolume := (wvolume st)[nat i := wvolume st ! nat i +
                sum_list (map (contribution e st i)
                  (filter (resolvable e st i) (count_up (npartner st ! nat i))))]\<rparr>)"
proof -
  note sl = sized_lengths [OF assms(1)] sized_rows [OF assms(1,3)]
  have "nat (npartner st ! nat i) \<le> nat (maxpartner st)" using assms(4) by simp
  with wvolume_loop [of i st "nat (npartner st ! nat i)" e, folded count_up_nat] assms(2,3)
  show ?thesis
    by (simp add: wvolume_atom_def rd_ok sl)
qed

text \<open>
  Claim C9. In the weighted-volume loop of a particle \<open>i\<close> with at most \<open>maxpartner\<close>
  bonds, a slot whose tag is 0, or whose tag \<open>atom->map\<close> does not resolve (a negative
  index), leaves the whole store as it is and raises nothing. The loop of \<open>i\<close> ends
  without error, changes nothing but \<open>wvolume[i]\<close> (no slot is tombstoned), and adds to
  it the contributions of the live, resolvable slots only.
\<close>

theorem wvolume_skips_unresolved:
  assumes "sized st n" "0 \<le> i" "nat i < n" "npartner st ! nat i \<le> maxpartner st"
  shows "(\<forall>jj. 0 \<le> jj \<and> jj < npartner st ! nat i \<and>
            (partner st ! nat i ! nat jj = 0 \<or> atom_map e (partner st ! nat i ! nat jj) < 0) \<longrightarrow>
            wvolume_bond e i jj st = Inr st) \<and>
         (\<exists>st'. wvolume_atom e i st = Inr st' \<and>
            first st' = first st \<and> maxpartner st' = maxpartner st \<and>
            npartner st' = npartner st \<and> partner st' = partner st \<and> r0 st' = r0 st \<and>
            vinter st' = vinter st \<and>
            wvolume st' = (wvolume st)[nat i := wvolume st ! nat i +
                sum_list (map (contribution e st i)
                  (filter (resolvable e st i) (count_up (npartner st ! nat i))))])"
proof -
  note sl = sized_lengths [OF assms(1)] sized_rows [OF assms(1,3)]
  have "wvolume_bond e i jj st = Inr st"
    if "0 \<le> jj" "jj < npartner st ! nat i"
      "partner st ! nat i ! nat jj = 0 \<or> atom_map e (partner st ! nat i ! nat jj) < 0" for jj
  proof (rule wvolume_bond_skip)
    show "nat jj < length (partner st ! nat i)"
      using that(1,2) assms(4) by (simp add: sl)
    show "\<not> resolvable e st i jj"
      using that(3) by (auto simp: resolvable_def)
  qed (use assms that in \<open>simp_all add: sl\<close>)
  then show ?thesis
    by (simp add: wvolume_atom_result [OF assms])
qed


text \<open>
  The loop on \<open>ex_bonded\<close> with a tombstone in slot 0 of particle 0: nothing is added.
\<close>

theorem wvolume_skips_unresolved_witness:
  "sized (ex_bonded\<lparr>partner := [[0], [1]]\<rparr>) 2 \<and>
   wvolume_bond ex_env 0 0 (ex_bonded\<lparr>partner := [[0], [1]]\<rparr>) =
     Inr (ex_bonded\<lparr>partner := [[0], [1]]\<rparr>) \<and>
   wvolume_atom ex_env 0 (ex_bonded\<lparr>partner := [[0], [1]]\<rparr>) =
     Inr (ex_bonded\<lparr>partner := [[0], [1]]\<rparr>)"
proof -
  define st where "st = ex_bonded\<lparr>partner := [[0], [1]]\<rparr>"
  have s: "sized st 2"
    by (simp add: sized_def st_def ex_bonded_def)
  have n: "npartner st ! nat 0 \<le> maxpartner st"
    by (simp add: st_def ex_bonded_def)
  have c: "count_up (npartner st ! nat 0) = [0]"
    by (simp add: st_def ex_bonded_def count_up_def)
  have r: "\<not> resolvable ex_env st 0 0"
    by (simp add: resolvable_def st_def ex_bonded_def)
  have p: "0 < npartner st ! nat 0" "partner st ! nat 0 ! nat 0 = 0"
    by (simp_all add: st_def ex_bonded_def)
  have z: "(0::int) \<le> 0" "nat 0 < (2::nat)" by simp_all
  note t = wvolume_skips_unresolved [of st 2 0 ex_env, OF s z n, unfolded c]
  from t p have "wvolume_bond ex_env 0 0 st = Inr st"
    by blast
  moreover from t r obtain st' where "wvolume_atom ex_env 0 st = Inr st'"
    "first st' = first st" "maxpartner st' = maxpartner st"
    "npartner st' = npartner st" "partner st' = partner st" "r0 st' = r0 st"
    "vinter st' = vinter st" "wvolume st' = wvolume st"
    by auto
  ultimately have "wvolume_bond ex_env 0 0 st = Inr st \<and> wvolume_atom ex_env 0 st = Inr st"
    by simp
  with s show ?thesis by (simp add: st_def)
qed

text \<open>
  Claim C6. With \<open>half_lc = 0.5 * xlattice\<close> and a positive lattice spacing: the scale
  factor is \<open>- r0 / (2 * half_lc) + 1 + (delta - half_lc) / (2 * half_lc)\<close> when
  \<open>|r0 - delta| <= half_lc\<close> and 1 otherwise, and a live, resolvable bond adds
  \<open>rsq0 * vfrac[j]\<close> times that factor under the uniform influence of \<open>PairPeriPMB\<close>.
  A particle whose \<open>wvolume\<close> is 0 and whose single bond is live, resolvable and has
  \<open>r0 = delta - 2 * half_lc\<close> ends with \<open>wvolume = rsq0 * vfrac[j]\<close>; at \<open>r0 = delta\<close>
  the factor is below 1.
\<close>

theorem horizon_blend:
  assumes lat: "0 < lattice_xlattice e"
    and st: "sized st n" "0 \<le> i" "nat i < n" "npartner st ! nat i = 1" "1 \<le> maxpartner st"
    and live: "partner st ! nat i ! 0 \<noteq> 0" "j = atom_map e (partner st ! nat i ! 0)" "0 \<le> j"
    and pmb: "pair_anypair e = PairPeriPMB"
    and w0: "wvolume st ! nat i = 0"
  shows "half_lc e = 0.5 * lattice_xlattice e \<and>
         (\<forall>r d. vfrac_scale (half_lc e) r d =
            (if \<bar>r - d\<bar> \<le> half_lc e
             then - r / (2 * half_lc e) + 1 + (d - half_lc e) / (2 * half_lc e) else 1)) \<and>
         (\<exists>st'. wvolume_bond e i 0 st = Inr st' \<and>
            wvolume st' ! nat i =
              rsq0 e i j * atom_vfrac e j * vfrac_scale (half_lc e) (r0 st ! nat i ! 0) (delta e i j)) \<and>
         (r0 st ! nat i ! 0 = delta e i j - 2 * half_lc e \<longrightarrow>
            (\<exists>st'. wvolume_atom e i st = Inr st' \<and>
               wvolume st' ! nat i = rsq0 e i j * atom_vfrac e j)) \<and>
         vfrac_scale (half_lc e) (delta e i j) (delta e i j) < 1"
proof -
  note sl = sized_lengths [OF st(1)] sized_rows [OF st(1,3)]
  have h: "0 < half_lc e" using lat by (simp add: half_lc_def)
  have res: "resolvable e st i 0"
    using live by (simp add: resolvable_def)
  have c: "contribution e st i 0 =
      rsq0 e i j * atom_vfrac e j * vfrac_scale (half_lc e) (r0 st ! nat i ! 0) (delta e i j)"
    using live(2) pmb by (simp add: contribution_def influence_def Let_def)
  have a: "\<forall>r d. vfrac_scale (half_lc e) r d =
            (if \<bar>r - d\<bar> \<le> half_lc e
             then - r / (2 * half_lc e) + 1 + (d - half_lc e) / (2 * half_lc e) else 1)"
    by (simp add: vfrac_scale_def)
  have b: "wvolume_bond e i 0 st =
      Inr (st\<lparr>wvolume := (wvolume st)[nat i := wvolume st ! nat i + contribution e st i 0]\<rparr>)"
    using st(2,3,5) res by (intro wvolume_bond_live) (simp_all add: sl)
  have d: "wvolume_atom e i st =
      Inr (st\<lparr>wvolume := (wvolume st)[nat i := wvolume st ! nat i + contribution e st i 0]\<rparr>)"
    using wvolume_atom_result [OF st(1-3), of e] st(4,5) res
    by (simp add: count_up_def)
  have f: "vfrac_scale (half_lc e) (delta e i j - 2 * half_lc e) (delta e i j) = 1"
    using h by (simp add: vfrac_scale_def)
  have g: "vfrac_scale (half_lc e) (delta e i j) (delta e i j) = 1 / 2"
    using h by (simp add: vfrac_scale_def field_simps)
  have c1: "half_lc e = 0.5 * lattice_xlattice e"
    by (simp add: half_lc_def)
  have c3: "\<exists>st'. wvolume_bond e i 0 st = Inr st' \<and>
            wvolume st' ! nat i =
              rsq0 e i j * atom_vfrac e j * vfrac_scale (half_lc e) (r0 st ! nat i ! 0) (delta e i j)"
    using st(3) by (simp add: b c w0 sl)
  have c4: "r0 st ! nat i ! 0 = delta e i j - 2 * half_lc e \<longrightarrow>
            (\<exists>st'. wvolume_atom e i st = Inr st' \<and>
               wvolume st' ! nat i = rsq0 e i j * atom_vfrac e j)"
    using st(3) by (simp add: d c w0 sl f)
  have c5: "vfrac_scale (half_lc e) (delta e i j) (delta e i j) < 1"
    by (simp add: g)
  from c1 a c3 c4 c5 show ?thesis by blast
qed

text \<open>
  On \<open>ex_env2\<close> and \<open>ex_bonded\<close>: \<open>delta = 2\<close>, \<open>half_lc = 1/2\<close>, the bond of particle 0
  has \<open>r0 = 1\<close>, and \<open>rsq0 = 1\<close>, \<open>vfrac = 1\<close>.
\<close>

theorem horizon_blend_witness:
  "0 < lattice_xlattice ex_env2 \<and> sized ex_bonded 2 \<and>
   r0 ex_bonded ! nat 0 ! 0 = delta ex_env2 0 1 - 2 * half_lc ex_env2 \<and>
   (\<exists>st'. wvolume_atom ex_env2 0 ex_bonded = Inr st' \<and> wvolume st' ! nat 0 = 1) \<and>
   vfrac_scale (1 / 2) 2 2 < 1"
proof -
  have l: "0 < lattice_xlattice ex_env2"
    by (simp add: ex_env2_def ex_env_def)
  have s: "sized ex_bonded 2"
    by (simp add: sized_def ex_bonded_def)
  have b: "npartner ex_bonded ! nat 0 = 1" "1 \<le> maxpartner ex_bonded"
    "partner ex_bonded ! nat 0 ! 0 \<noteq> 0" "wvolume ex_bonded ! nat 0 = 0"
    by (simp_all add: ex_bonded_def)
  have m: "1 = atom_map ex_env2 (partner ex_bonded ! nat 0 ! 0)"
    by (simp add: ex_env2_def ex_env_def ex_bonded_def)
  have p: "pair_anypair ex_env2 = PairPeriPMB"
    by (simp add: ex_env2_def ex_env_def)
  have d: "delta ex_env2 0 1 = 2" "half_lc ex_env2 = 1 / 2" "rsq0 ex_env2 0 1 = 1"
    "atom_vfrac ex_env2 1 = 1"
    by (simp_all add: delta_def half_lc_def rsq0_def del0_def ex_env2_def ex_env_def)
  have r: "r0 ex_bonded ! nat 0 ! 0 = delta ex_env2 0 1 - 2 * half_lc ex_env2"
    unfolding d by (simp add: ex_bonded_def)
  have z: "(0::int) \<le> 0" "nat 0 < (2::nat)" "(0::int) \<le> 1" by simp_all
  note t = horizon_blend [of ex_env2 ex_bonded 2 0 1, OF l s z(1,2) b(1,2,3) m z(3) p b(4),
      unfolded d]
  from t r [unfolded d]
  have "\<exists>st'. wvolume_atom ex_env2 0 ex_bonded = Inr st' \<and> wvolume st' ! nat 0 = 1 * 1"
    by blast
  moreover from t have "vfrac_scale (1 / 2) 2 2 < 1"
    by blast
  ultimately show ?thesis using l s r by simp
qed

subsection \<open>Ghost synchronisation\<close>

lemma count_from_int: "count_from a (a + int k) = map (\<lambda>q. a + int q) [0..<k]"
  by (simp add: count_from_def)

lemma count_from_nat: "count_from a (a + n) = count_from a (a + int (nat n))"
  by (simp add: count_from_def)

lemma list_update_drop_append:
  "length xs = k \<Longrightarrow> k < length row \<Longrightarrow> (xs @ drop k row)[k := v] = (xs @ [v]) @ drop (Suc k) row"
  by (simp add: list_update_append flip: Cons_nth_drop_Suc)

lemma pack_comm_loop:
  assumes "k \<le> length list" "\<forall>q<k. 0 \<le> list ! q \<and> nat (list ! q) < length (wvolume st)"
  shows "foldE (pack_comm_one st list) (count_up (int k)) buf =
         Inr (buf @ map (\<lambda>q. wvolume st ! nat (list ! q)) [0..<k])"
  using assms
proof (induction k)
  case 0
  then show ?case by simp
next
  case (Suc k)
  then have "pack_comm_one st list (int k) b = Inr (b @ [wvolume st ! nat (list ! k)])" for b
    by (simp add: pack_comm_one_def rd_ok)
  with Suc show ?case by (simp add: foldE_append)
qed

lemma unpack_comm_loop:
  assumes "0 \<le> frst" "nat frst + k \<le> length (wvolume st)" "k \<le> length buf"
  shows "foldE (unpack_comm_one buf) (count_from frst (frst + int k)) (st, 0) =
         Inr (st\<lparr>wvolume := take (nat frst) (wvolume st) @ take k buf @
                  drop (nat frst + k) (wvolume st)\<rparr>, int k)"
  using assms(2,3)
proof (induction k)
  case 0
  then show ?case by (simp add: count_from_def)
next
  case (Suc k)
  have n: "nat (frst + int k) = nat frst + k" using assms(1) by linarith
  have "(take (nat frst) (wvolume st) @ take k buf @ drop (nat frst + k) (wvolume st))[nat frst + k := buf ! k]
      = ((take (nat frst) (wvolume st) @ take k buf) @ [buf ! k]) @ drop (Suc (nat frst + k)) (wvolume st)"
    using Suc.prems list_update_drop_append [of "take (nat frst) (wvolume st) @ take k buf" "nat frst + k" "wvolume st"]
    by simp
  then have upd: "(take (nat frst) (wvolume st) @ take k buf @ drop (nat frst + k) (wvolume st))[nat frst + k := buf ! k]
      = take (nat frst) (wvolume st) @ take (Suc k) buf @  drop (Suc (nat frst + k)) (wvolume st)"
    using Suc.prems by (simp add: take_Suc_conv_app_nth)
  have c: "count_from frst (frst + int (Suc k)) = count_from frst (frst + int k) @ [frst + int k]"
    by (simp only: count_from_int) simp
  from Suc assms(1) show ?case
    by (simp only: c foldE_append) (simp add: unpack_comm_one_def rd_ok wr_ok n upd)
qed


lemma pack_comm_result:
  assumes "nat n \<le> length list" "\<forall>q<nat n. 0 \<le> list ! q \<and> nat (list ! q) < length (wvolume st)"
  shows "pack_comm st n list = Inr (1, map (\<lambda>q. wvolume st ! nat (list ! q)) [0..<nat n])"
  using pack_comm_loop [OF assms, of "[]", folded count_up_nat]
  by (simp add: pack_comm_def)

lemma unpack_comm_result:
  assumes "0 \<le> frst" "nat frst + nat n \<le> length (wvolume st)" "nat n \<le> length buf"
  shows "unpack_comm st n frst buf =
         Inr (st\<lparr>wvolume := take (nat frst) (wvolume st) @ take (nat n) buf @
                  drop (nat frst + nat n) (wvolume st)\<rparr>)"
  using unpack_comm_loop [OF assms, folded count_from_nat]
  by (simp add: unpack_comm_def)

text \<open>
  Claim C10. Let the send list name valid slots, and the ghost slots
  \<open>frst .. frst + n - 1\<close> lie in storage at or after \<open>nlocal\<close>. Then \<open>pack_comm\<close>
  returns 1 (one word per particle) and writes the \<open>n\<close> words \<open>wvolume[list[q]]\<close>; any
  store that agrees on \<open>wvolume\<close> of the listed particles gives the same buffer.
  \<open>unpack_comm\<close> of that buffer writes \<open>wvolume\<close> of the ghost slots and nothing else:
  \<open>first\<close>, \<open>maxpartner\<close>, \<open>npartner\<close>, \<open>partner\<close>, \<open>r0\<close> and \<open>vinter\<close> are unchanged,
  and so is \<open>wvolume\<close> outside the ghost slots, in particular of every local particle.
\<close>

theorem ghost_sync_frame:
  assumes snd: "nat n \<le> length list"
      "\<forall>q<nat n. 0 \<le> list ! q \<and> nat (list ! q) < length (wvolume src)"
    and rcv: "0 \<le> nlocal" "nlocal \<le> frst" "nat frst + nat n \<le> length (wvolume dst)"
  shows "\<exists>buf dst'.
           pack_comm src n list = Inr (1, buf) \<and>
           length buf = nat n \<and> (\<forall>q<nat n. buf ! q = wvolume src ! nat (list ! q)) \<and>
           (\<forall>src2. length (wvolume src2) = length (wvolume src) \<and>
                    (\<forall>q<nat n. wvolume src2 ! nat (list ! q) = wvolume src ! nat (list ! q)) \<longrightarrow>
                    pack_comm src2 n list = Inr (1, buf)) \<and>
           unpack_comm dst n frst buf = Inr dst' \<and>
           first dst' = first dst \<and> maxpartner dst' = maxpartner dst \<and>
           npartner dst' = npartner dst \<and> partner dst' = partner dst \<and> r0 dst' = r0 dst \<and>
           vinter dst' = vinter dst \<and> length (wvolume dst') = length (wvolume dst) \<and>
           (\<forall>q<nat n. wvolume dst' ! (nat frst + q) = buf ! q) \<and>
           (\<forall>k. k < nat frst \<or> nat frst + nat n \<le> k \<longrightarrow> wvolume dst' ! k = wvolume dst ! k) \<and>
           (\<forall>i. 0 \<le> i \<and> i < nlocal \<longrightarrow> wvolume dst' ! nat i = wvolume dst ! nat i)"
proof -
  define buf where "buf = map (\<lambda>q. wvolume src ! nat (list ! q)) [0..<nat n]"
  define dst' where "dst' = dst\<lparr>wvolume := take (nat frst) (wvolume dst) @ take (nat n) buf @
                  drop (nat frst + nat n) (wvolume dst)\<rparr>"
  have lb: "length buf = nat n" by (simp add: buf_def)
  have f: "0 \<le> frst" using rcv(1,2) by simp
  have p: "pack_comm src n list = Inr (1, buf)"
    unfolding buf_def by (rule pack_comm_result [OF snd])
  have p2: "pack_comm src2 n list = Inr (1, buf)"
    if "length (wvolume src2) = length (wvolume src)"
      "\<forall>q<nat n. wvolume src2 ! nat (list ! q) = wvolume src ! nat (list ! q)" for src2
  proof -
    have "pack_comm src2 n list = Inr (1, map (\<lambda>q. wvolume src2 ! nat (list ! q)) [0..<nat n])"
      using snd that(1) by (intro pack_comm_result) simp_all
    also have "map (\<lambda>q. wvolume src2 ! nat (list ! q)) [0..<nat n] = buf"
      unfolding buf_def using that(2) by (intro map_cong) simp_all
    finally show ?thesis .
  qed
  have u: "unpack_comm dst n frst buf = Inr dst'"
    unfolding dst'_def using f rcv(3) lb by (intro unpack_comm_result) simp_all
  have w1: "wvolume dst' ! (nat frst + q) = buf ! q" if "q < nat n" for q
    using that rcv(3) by (simp add: dst'_def nth_append lb)
  have w2: "wvolume dst' ! k = wvolume dst ! k" if "k < nat frst \<or> nat frst + nat n \<le> k" for k
    using that rcv(3) by (auto simp: dst'_def nth_append lb)
  have w3: "wvolume dst' ! nat i = wvolume dst ! nat i" if "0 \<le> i" "i < nlocal" for i
    using that rcv(2) by (intro w2) linarith
  have w4: "length (wvolume dst') = length (wvolume dst)"
    using rcv(3) by (simp add: dst'_def lb)
  have fr: "first dst' = first dst" "maxpartner dst' = maxpartner dst"
    "npartner dst' = npartner dst" "partner dst' = partner dst" "r0 dst' = r0 dst"
    "vinter dst' = vinter dst"
    by (simp_all add: dst'_def)
  have b: "\<forall>q<nat n. buf ! q = wvolume src ! nat (list ! q)"
    by (simp add: buf_def)
  from p lb b p2 u fr w4 w1 w2 w3 show ?thesis by blast
qed

text \<open>
  \<open>wvolume\<close> of particle 0 of \<open>ex_store\<close> sent to the ghost slot 2 of \<open>ex_ghost\<close>.
\<close>

theorem ghost_sync_frame_witness:
  "pack_comm ex_store 1 [0] = Inr (1, [4]) \<and>
   unpack_comm ex_ghost 1 2 [4] = Inr (ex_ghost\<lparr>wvolume := [1, 2, 4]\<rparr>)"
proof -
  have a: "nat 1 \<le> length [0::int]"
    "\<forall>q<nat 1. 0 \<le> [0::int] ! q \<and> nat ([0::int] ! q) < length (wvolume ex_store)"
    "nat 2 + nat 1 \<le> length (wvolume ex_ghost)"
    by (simp_all add: ex_store_def ex_ghost_def)
  from ghost_sync_frame [of 1 "[0]" ex_store 2 2 ex_ghost, OF a(1,2) _ _ a(3)]
  obtain buf dst' where h: "pack_comm ex_store 1 [0] = Inr (1, buf)"
    "length buf = nat 1" "\<forall>q<nat 1. buf ! q = wvolume ex_store ! nat ([0] ! q)"
    "unpack_comm ex_ghost 1 2 buf = Inr dst'"
    by auto
  from h(2,3) have "buf = [4]"
    by (cases buf) (simp_all add: ex_store_def)
  moreover have "unpack_comm ex_ghost 1 2 [4] = Inr (ex_ghost\<lparr>wvolume := [1, 2, 4]\<rparr>)"
    by (simp add: unpack_comm_def unpack_comm_one_def count_from_def rd_def wr_def ex_ghost_def)
  ultimately show ?thesis using h(1) by simp
qed

subsection \<open>The two passes of the build\<close>

lemma setup_count_loop:
  assumes "0 \<le> i" "nat i < length (npartner st)"
  shows "foldE (setup_count e i) jl st =
         Inr (st\<lparr>npartner := (npartner st)[nat i := npartner st ! nat i +
                int (length (passing e i jl))]\<rparr>)"
  using assms(2)
proof (induction jl arbitrary: st)
  case Nil
  then show ?case by (simp add: passing_def)
next
  case (Cons j jl)
  show ?case
  proof (cases "in_cutoff e i (j AND neighmask e)")
    case True
    define s1 where "s1 = st\<lparr>npartner := (npartner st)[nat i := npartner st ! nat i + 1]\<rparr>"
    have "setup_count e i j st = Inr s1"
      using True assms(1) Cons.prems by (simp add: setup_count_def rd_ok wr_ok s1_def)
    moreover have "nat i < length (npartner s1)" using Cons.prems by (simp add: s1_def)
    ultimately show ?thesis
      using True Cons.prems Cons.IH [of s1] by (simp add: s1_def add.assoc passing_def)
  next
    case False
    then have "setup_count e i j st = Inr st" by (simp add: setup_count_def)
    with False Cons show ?thesis by (simp add: passing_def)
  qed
qed

lemma created_in_Cons:
  "created_in e (a # il) i = (if a = i then map (bond_of e i) (accepted e i) else []) @ created_in e il i"
  by (simp add: created_in_def)

lemma created_in_Nil [simp]: "created_in e [] i = []"
  by (simp add: created_in_def)

lemma setup_sizing_loop:
  assumes "\<forall>a\<in>set il. 0 \<le> a \<and> nat a < length (npartner st)"
  shows "\<exists>np'. foldE (\<lambda>i. foldE (setup_count e i) (list_firstneigh e i)) il st =
               Inr (st\<lparr>npartner := np'\<rparr>) \<and>
             length np' = length (npartner st) \<and>
             (\<forall>k. 0 \<le> k \<longrightarrow> np' ! nat k = npartner st ! nat k + int (length (created_in e il k)))"
  using assms
proof (induction il arbitrary: st)
  case Nil
  show ?case by (rule exI [of _ "npartner st"]) simp
next
  case (Cons a il)
  define c where "c = int (length (accepted e a))"
  define s1 where "s1 = st\<lparr>npartner := (npartner st)[nat a := npartner st ! nat a + c]\<rparr>"
  from Cons.prems have a: "0 \<le> a" "nat a < length (npartner st)" by simp_all
  have step: "foldE (setup_count e a) (list_firstneigh e a) st = Inr s1"
    using setup_count_loop [OF a, of e "list_firstneigh e a"]
    by (simp add: s1_def c_def accepted_def)
  have "\<forall>b\<in>set il. 0 \<le> b \<and> nat b < length (npartner s1)"
    using Cons.prems by (simp add: s1_def)
  from Cons.IH [OF this] obtain np' where
    np: "foldE (\<lambda>i. foldE (setup_count e i) (list_firstneigh e i)) il s1 = Inr (s1\<lparr>npartner := np'\<rparr>)"
      "length np' = length (npartner s1)"
      "\<And>k. 0 \<le> k \<Longrightarrow> np' ! nat k = npartner s1 ! nat k + int (length (created_in e il k))"
    by blast
  have "np' ! nat k = npartner st ! nat k + int (length (created_in e (a # il) k))" if "0 \<le> k" for k
  proof (cases "k = a")
    case True
    with np(3) [OF that] a show ?thesis
      by (simp add: s1_def created_in_Cons c_def)
  next
    case False
    with that a have "nat k \<noteq> nat a" by linarith
    with np(3) [OF that] False show ?thesis
      by (simp add: s1_def created_in_Cons)
  qed
  moreover have "foldE (\<lambda>i. foldE (setup_count e i) (list_firstneigh e i)) (a # il) st =
      Inr (st\<lparr>npartner := np'\<rparr>)"
    using step np(1) by (simp add: s1_def)
  moreover have "length np' = length (npartner st)"
    using np(2) by (simp add: s1_def)
  ultimately show ?case by blast
qed

lemma setup_localmax_loop:
  fixes np :: "int list"
  shows "k \<le> length np \<Longrightarrow>
   foldE (\<lambda>i m. andThen (rd np i) (\<lambda>n. Inr (max m n))) (count_up (int k)) m0 =
   Inr (fold max (take k np) m0)"
proof (induction k)
  case 0
  then show ?case by simp
next
  case (Suc k)
  then show ?case
    using max.commute [of "fold max (take k np) m0" "np ! k"]
    by (simp add: foldE_append rd_ok take_Suc_conv_app_nth)
qed

lemma setup_reset_loop:
  assumes "k \<le> length (npartner st)" "k \<le> length (vinter st)" "k \<le> length (wvolume st)"
  shows "foldE setup_reset (count_up (int k)) st =
         Inr (st\<lparr>npartner := replicate k 0 @ drop k (npartner st),
                 vinter := replicate k 0 @ drop k (vinter st),
                 wvolume := replicate k 0 @ drop k (wvolume st)\<rparr>)"
  using assms
proof (induction k)
  case 0
  then show ?case by simp
next
  case (Suc k)
  then show ?case
    by (simp add: foldE_append setup_reset_def wr_ok list_update_drop_append
        replicate_append_same)
qed

lemma setup_bond_loop:
  assumes i: "0 \<le> i" "nat i < length (npartner st)" "nat i < length (partner st)"
      "nat i < length (r0 st)" "nat i < length (vinter st)"
    and n: "0 \<le> npartner st ! nat i"
  shows "nat (npartner st ! nat i) + length (passing e i jl) \<le> length (partner st ! nat i) \<Longrightarrow>
         nat (npartner st ! nat i) + length (passing e i jl) \<le> length (r0 st ! nat i) \<Longrightarrow>
         foldE (setup_bond e i) jl st =
         Inr (st\<lparr>partner := (partner st)[nat i := take (nat (npartner st ! nat i)) (partner st ! nat i) @
                    map (\<lambda>jraw. fst (bond_of e i jraw)) (passing e i jl) @
                    drop (nat (npartner st ! nat i) + length (passing e i jl)) (partner st ! nat i)],
                 r0 := (r0 st)[nat i := take (nat (npartner st ! nat i)) (r0 st ! nat i) @
                    map (\<lambda>jraw. snd (bond_of e i jraw)) (passing e i jl) @
                    drop (nat (npartner st ! nat i) + length (passing e i jl)) (r0 st ! nat i)],
                 npartner := (npartner st)[nat i := npartner st ! nat i + int (length (passing e i jl))],
                 vinter := (vinter st)[nat i := vinter st ! nat i +
                    sum_list (map (\<lambda>jraw. atom_vfrac e (jraw AND neighmask e)) (passing e i jl))]\<rparr>)"
proof (induction jl rule: rev_induct)
  case Nil
  then show ?case by (simp add: passing_def)
next
  case (snoc j jl)
  let ?n0 = "nat (npartner st ! nat i)"
  let ?acc = "passing e i"
  define c where "c = length (?acc jl)"
  define s1 where "s1 = st\<lparr>partner := (partner st)[nat i := take ?n0 (partner st ! nat i) @
                    map (\<lambda>jraw. fst (bond_of e i jraw)) (?acc jl) @
                    drop (?n0 + c) (partner st ! nat i)],
                 r0 := (r0 st)[nat i := take ?n0 (r0 st ! nat i) @
                    map (\<lambda>jraw. snd (bond_of e i jraw)) (?acc jl) @
                    drop (?n0 + c) (r0 st ! nat i)],
                 npartner := (npartner st)[nat i := npartner st ! nat i + int c],
                 vinter := (vinter st)[nat i := vinter st ! nat i +
                    sum_list (map (\<lambda>jraw. atom_vfrac e (jraw AND neighmask e)) (?acc jl))]\<rparr>"
  have le: "length (?acc jl) \<le> length (?acc (jl @ [j]))" by (simp add: passing_def)
  with snoc.prems have "?n0 + length (?acc jl) \<le> length (partner st ! nat i)"
    "?n0 + length (?acc jl) \<le> length (r0 st ! nat i)" by simp_all
  from snoc.IH [OF this] have pre: "foldE (setup_bond e i) jl st = Inr s1"
    by (simp add: s1_def c_def)
  show ?case
  proof (cases "in_cutoff e i (j AND neighmask e)")
    case False
    then have "?acc (jl @ [j]) = ?acc jl" "setup_bond e i j s1 = Inr s1"
      by (simp_all add: passing_def setup_bond_def)
    with pre show ?thesis
      by (simp add: foldE_append s1_def c_def)
  next
    case True
    then have a: "?acc (jl @ [j]) = ?acc jl @ [j]" by (simp add: passing_def)
    with snoc.prems have lt: "?n0 + c < length (partner st ! nat i)" "?n0 + c < length (r0 st ! nat i)"
      by (simp_all add: c_def)
    have nn: "nat (npartner st ! nat i + int c) = ?n0 + c"
      using n by (simp add: nat_add_distrib)
    have up: "(take ?n0 row @ xs @ drop (?n0 + c) row)[?n0 + c := v] =
        take ?n0 row @ (xs @ [v]) @ drop (?n0 + Suc c) row"
      if "length xs = c" "?n0 + c < length row" for row xs :: "'a list" and v
      using that list_update_drop_append [of "take ?n0 row @ xs" "?n0 + c" row v] by simp
    have lc: "length (?acc jl) = c" by (simp add: c_def)
    have A: "rd (npartner s1) i = Inr (npartner st ! nat i + int c)"
      using i by (simp add: rd_ok s1_def)
    have B: "wr2 (partner s1) i (npartner st ! nat i + int c) t =
        Inr ((partner st)[nat i := take ?n0 (partner st ! nat i) @
                    (map (\<lambda>jraw. fst (bond_of e i jraw)) (?acc jl) @ [t]) @
                    drop (?n0 + Suc c) (partner st ! nat i)])" for t
      using i lt(1) n by (simp add: wr2_ok s1_def nn up lc)
    have C: "wr2 (r0 s1) i (npartner st ! nat i + int c) t =
        Inr ((r0 st)[nat i := take ?n0 (r0 st ! nat i) @
                    (map (\<lambda>jraw. snd (bond_of e i jraw)) (?acc jl) @ [t]) @
                    drop (?n0 + Suc c) (r0 st ! nat i)])" for t
      using i lt(2) n by (simp add: wr2_ok s1_def nn up lc)
    have D: "wr (npartner s1) i (npartner st ! nat i + int c + 1) =
        Inr ((npartner st)[nat i := npartner st ! nat i + int (Suc c)])"
      using i by (simp add: wr_ok s1_def algebra_simps)
    define S where "S = sum_list (map (\<lambda>jraw. atom_vfrac e (jraw AND neighmask e)) (?acc jl))"
    have E: "rd (vinter s1) i = Inr (vinter st ! nat i + S)"
      using i by (simp add: rd_ok s1_def S_def)
    have F: "wr (vinter s1) i (vinter st ! nat i + S + x) =
        Inr ((vinter st)[nat i := vinter st ! nat i + (S + x)])" for x
      using i by (simp add: wr_ok s1_def add.assoc)
    have "setup_bond e i j s1 =
        Inr (s1\<lparr>partner := (partner st)[nat i := take ?n0 (partner st ! nat i) @
                    (map (\<lambda>jraw. fst (bond_of e i jraw)) (?acc jl) @ [fst (bond_of e i j)]) @
                    drop (?n0 + Suc c) (partner st ! nat i)],
                 r0 := (r0 st)[nat i := take ?n0 (r0 st ! nat i) @
                    (map (\<lambda>jraw. snd (bond_of e i jraw)) (?acc jl) @ [snd (bond_of e i j)]) @
                    drop (?n0 + Suc c) (r0 st ! nat i)],
                 npartner := (npartner st)[nat i := npartner st ! nat i + int (Suc c)],
                 vinter := (vinter st)[nat i := vinter st ! nat i +
                    (S + atom_vfrac e (j AND neighmask e))]\<rparr>)"
      using True by (simp add: setup_bond_def Let_def A B C D E F bond_of_def)
    with pre show ?thesis
      by (simp add: foldE_append a s1_def lc S_def)
  qed
qed

lemma setup_bond_loop_props:
  assumes st: "sized st n" "0 \<le> i" "nat i < n"
    and np: "0 \<le> npartner st ! nat i"
      "npartner st ! nat i + int (length (passing e i jl)) \<le> maxpartner st"
  obtains st' where "foldE (setup_bond e i) jl st = Inr st'" "sized st' n"
    "first st' = first st" "maxpartner st' = maxpartner st" "wvolume st' = wvolume st"
    "bonds st' i = bonds st i @ map (bond_of e i) (passing e i jl)"
    "npartner st' ! nat i = npartner st ! nat i + int (length (passing e i jl))"
    "\<And>k. 0 \<le> k \<Longrightarrow> k \<noteq> i \<Longrightarrow>
        bonds st' k = bonds st k \<and> npartner st' ! nat k = npartner st ! nat k"
proof -
  note sl = sized_lengths [OF st(1)] sized_rows [OF st(1,3)]
  let ?n0 = "nat (npartner st ! nat i)"
  let ?B = "passing e i jl"
  define st' where "st' = st\<lparr>partner := (partner st)[nat i := take ?n0 (partner st ! nat i) @
                    map (\<lambda>jraw. fst (bond_of e i jraw)) ?B @
                    drop (?n0 + length ?B) (partner st ! nat i)],
                 r0 := (r0 st)[nat i := take ?n0 (r0 st ! nat i) @
                    map (\<lambda>jraw. snd (bond_of e i jraw)) ?B @
                    drop (?n0 + length ?B) (r0 st ! nat i)],
                 npartner := (npartner st)[nat i := npartner st ! nat i + int (length ?B)],
                 vinter := (vinter st)[nat i := vinter st ! nat i +
                    sum_list (map (\<lambda>jraw. atom_vfrac e (jraw AND neighmask e)) ?B)]\<rparr>"
  have le: "?n0 + length ?B \<le> nat (maxpartner st)"
    using np by linarith
  have run: "foldE (setup_bond e i) jl st = Inr st'"
    unfolding st'_def using st(2,3) np(1) le
    by (intro setup_bond_loop) (simp_all add: sl)
  have sz: "sized st' n"
    using st(1,3) le
    by (auto simp: sized_def st'_def list_all_length nth_list_update)
  have nn: "nat (npartner st ! nat i + int (length ?B)) = ?n0 + length ?B"
    using np(1) by (simp add: nat_add_distrib)
  have "bonds st i = zip (take ?n0 (partner st ! nat i)) (take ?n0 (r0 st ! nat i))"
    by (simp add: bonds_def Let_def)
  moreover have "bonds st' i =
      zip (take ?n0 (partner st ! nat i) @ map (\<lambda>jraw. fst (bond_of e i jraw)) ?B)
          (take ?n0 (r0 st ! nat i) @ map (\<lambda>jraw. snd (bond_of e i jraw)) ?B)"
    using st(3) le by (simp add: bonds_def Let_def st'_def sl nn)
  moreover have "zip (map (\<lambda>jraw. fst (bond_of e i jraw)) ?B) (map (\<lambda>jraw. snd (bond_of e i jraw)) ?B)
      = map (bond_of e i) ?B"
    by (simp add: zip_map_map zip_same_conv_map)
  ultimately have b: "bonds st' i = bonds st i @ map (bond_of e i) ?B"
    using le by (simp add: sl)
  have c: "npartner st' ! nat i = npartner st ! nat i + int (length ?B)"
    using st(3) by (simp add: st'_def sl)
  have d: "bonds st' k = bonds st k \<and> npartner st' ! nat k = npartner st ! nat k"
    if "0 \<le> k" "k \<noteq> i" for k
  proof -
    from that st(2) have "nat k \<noteq> nat i" by linarith
    then show ?thesis by (simp add: bonds_def Let_def st'_def)
  qed
  show thesis
    by (rule that [OF run sz _ _ _ b c d]) (simp_all add: st'_def)
qed

lemma setup_populate_loop:
  assumes "sized st n"
    and "\<forall>a\<in>set il. 0 \<le> a \<and> nat a < n \<and> 0 \<le> npartner st ! nat a \<and>
           npartner st ! nat a + int (length (created_in e il a)) \<le> maxpartner st"
  shows "\<exists>st'. foldE (\<lambda>i. foldE (setup_bond e i) (list_firstneigh e i)) il st = Inr st' \<and>
           sized st' n \<and> first st' = first st \<and> maxpartner st' = maxpartner st \<and>
           wvolume st' = wvolume st \<and>
           (\<forall>k. 0 \<le> k \<longrightarrow> bonds st' k = bonds st k @ created_in e il k \<and>
                npartner st' ! nat k = npartner st ! nat k + int (length (created_in e il k)))"
  using assms
proof (induction il arbitrary: st)
  case Nil
  then show ?case by simp
next
  case (Cons a il)
  from Cons.prems(2) have a: "0 \<le> a" "nat a < n" "0 \<le> npartner st ! nat a"
    "npartner st ! nat a + int (length (created_in e (a # il) a)) \<le> maxpartner st"
    by simp_all
  have ca: "length (created_in e (a # il) a) = length (accepted e a) + length (created_in e il a)"
    by (simp add: created_in_Cons)
  from a(4) have "npartner st ! nat a + int (length (passing e a (list_firstneigh e a))) \<le> maxpartner st"
    by (simp add: ca accepted_def)
  from setup_bond_loop_props [OF Cons.prems(1) a(1,2,3) this]
  obtain s1 where s1: "foldE (setup_bond e a) (list_firstneigh e a) st = Inr s1" "sized s1 n"
    "first s1 = first st" "maxpartner s1 = maxpartner st" "wvolume s1 = wvolume st"
    "bonds s1 a = bonds st a @ map (bond_of e a) (accepted e a)"
    "npartner s1 ! nat a = npartner st ! nat a + int (length (accepted e a))"
    "\<And>k. 0 \<le> k \<Longrightarrow> k \<noteq> a \<Longrightarrow>
        bonds s1 k = bonds st k \<and> npartner s1 ! nat k = npartner st ! nat k"
    unfolding accepted_def by blast
  have k1: "bonds s1 k = bonds st k @ (if a = k then map (bond_of e k) (accepted e k) else [])"
    "npartner s1 ! nat k = npartner st ! nat k +
       int (length (if a = k then map (bond_of e k) (accepted e k) else []))" if "0 \<le> k" for k
    using s1(6,7) s1(8) [OF that] by (cases "k = a"; simp)+
  have "\<forall>b\<in>set il. 0 \<le> b \<and> nat b < n \<and> 0 \<le> npartner s1 ! nat b \<and>
           npartner s1 ! nat b + int (length (created_in e il b)) \<le> maxpartner s1"
  proof
    fix b assume b: "b \<in> set il"
    with Cons.prems(2) have b': "0 \<le> b" "nat b < n" "0 \<le> npartner st ! nat b"
      "npartner st ! nat b + int (length (created_in e (a # il) b)) \<le> maxpartner st"
      by simp_all
    from b'(3,4) k1(2) [OF b'(1)] s1(4)
    show "0 \<le> b \<and> nat b < n \<and> 0 \<le> npartner s1 ! nat b \<and>
           npartner s1 ! nat b + int (length (created_in e il b)) \<le> maxpartner s1"
      using b'(1,2) by (simp add: created_in_Cons split: if_splits)
  qed
  from Cons.IH [OF s1(2) this] obtain st' where
    st': "foldE (\<lambda>i. foldE (setup_bond e i) (list_firstneigh e i)) il s1 = Inr st'"
      "sized st' n" "first st' = first s1" "maxpartner st' = maxpartner s1"
      "wvolume st' = wvolume s1"
      "\<And>k. 0 \<le> k \<Longrightarrow> bonds st' k = bonds s1 k @ created_in e il k \<and>
                npartner st' ! nat k = npartner s1 ! nat k + int (length (created_in e il k))"
    by blast
  have "bonds st' k = bonds st k @ created_in e (a # il) k \<and>
        npartner st' ! nat k = npartner st ! nat k + int (length (created_in e (a # il) k))"
    if "0 \<le> k" for k
    using st'(6) [OF that] k1 [OF that] by (simp add: created_in_Cons)
  moreover have "foldE (\<lambda>i. foldE (setup_bond e i) (list_firstneigh e i)) (a # il) st = Inr st'"
    using s1(1) st'(1) by simp
  ultimately show ?case
    using st'(2-5) s1(3-5) by auto
qed

lemma fold_max_ge_init: "(m0::int) \<le> fold max xs m0"
proof (induction xs arbitrary: m0)
  case Nil
  show ?case by simp
next
  case (Cons x xs)
  have "m0 \<le> max x m0" by simp
  also have "\<dots> \<le> fold max xs (max x m0)" by (rule Cons.IH)
  finally show ?case by simp
qed

lemma fold_max_ge_elem: "x \<in> set xs \<Longrightarrow> (x::int) \<le> fold max xs m0"
proof (induction xs arbitrary: m0)
  case Nil
  then show ?case by simp
next
  case (Cons y xs)
  show ?case
  proof (cases "x = y")
    case True
    have "x \<le> max y m0" using True by simp
    also have "\<dots> \<le> fold max xs (max y m0)" by (rule fold_max_ge_init)
    finally show ?thesis by simp
  next
    case False
    with Cons.prems have "x \<in> set xs" by simp
    from Cons.IH [OF this] show ?thesis by simp
  qed
qed

lemma fold_max_mem: "fold max xs (m0::int) = m0 \<or> fold max xs m0 \<in> set xs"
proof (induction xs arbitrary: m0)
  case Nil
  show ?case by simp
next
  case (Cons y xs)
  from Cons.IH [of "max y m0"] show ?case
    by (auto simp: max_def split: if_splits)
qed

lemma set_count_up: "set (count_up n) = {i. 0 \<le> i \<and> i < n}"
proof -
  have "i \<in> int ` {0..<nat n} \<longleftrightarrow> 0 \<le> i \<and> i < n" for i
  proof
    assume "i \<in> int ` {0..<nat n}"
    then show "0 \<le> i \<and> i < n" by auto
  next
    assume "0 \<le> i \<and> i < n"
    then have "i = int (nat i)" "nat i \<in> {0..<nat n}" by auto
    then show "i \<in> int ` {0..<nat n}" by blast
  qed
  then show ?thesis by (auto simp: count_up_def)
qed

lemma local_degree_max_props:
  "0 \<le> local_degree_max e"
  "is_local e i \<Longrightarrow> int (length (created e i)) \<le> local_degree_max e"
  "local_degree_max e = 0 \<or>
     (\<exists>i. is_local e i \<and> local_degree_max e = int (length (created e i)))"
proof -
  show "0 \<le> local_degree_max e"
    unfolding local_degree_max_def by (rule fold_max_ge_init)
  show "int (length (created e i)) \<le> local_degree_max e" if "is_local e i"
    unfolding local_degree_max_def using that
    by (intro fold_max_ge_elem) (auto simp: set_count_up is_local_def)
  show "local_degree_max e = 0 \<or>
     (\<exists>i. is_local e i \<and> local_degree_max e = int (length (created e i)))"
    using fold_max_mem [of "map (\<lambda>i. int (length (created e i))) (count_up (atom_nlocal e))" 0]
    by (auto simp: local_degree_max_def set_count_up is_local_def)
qed

lemma allreduce_max_props:
  "mine \<le> allreduce_max mine others"
  "x \<in> set others \<Longrightarrow> x \<le> allreduce_max mine others"
  "allreduce_max mine others = mine \<or> allreduce_max mine others \<in> set others"
  unfolding allreduce_max_def
  by (rule fold_max_ge_init, erule fold_max_ge_elem, rule fold_max_mem)

lemma sized_setup_realloc:
  "sized (setup_realloc e st) (nat (atom_nmax e))"
  "first (setup_realloc e st) = first st" "maxpartner (setup_realloc e st) = maxpartner st"
  by (simp_all add: setup_realloc_def sized_grow_arrays)

lemma unbuilt_zero: "unbuilt e st \<Longrightarrow> is_local e i \<Longrightarrow> npartner st ! nat i = 0"
  by (simp add: unbuilt_def list_all_iff set_count_up is_local_def)

lemma neigh_ok_ilist: "neigh_ok e \<Longrightarrow> a \<in> set (list_ilist e) \<Longrightarrow> is_local e a"
  by (simp add: neigh_ok_def list_all_iff)

lemma is_local_nat: "neigh_ok e \<Longrightarrow> is_local e i \<Longrightarrow> nat i < nat (atom_nmax e) \<and> nat i < nat (atom_nlocal e)"
  by (simp add: neigh_ok_def is_local_def)

lemma neigh_ok_le: "neigh_ok e \<Longrightarrow> nat (atom_nlocal e) \<le> nat (atom_nmax e)"
  by (auto simp: neigh_ok_def intro: nat_mono)

lemma setup_sizing_result:
  assumes "neigh_ok e" "unbuilt e st"
  obtains np1 where "setup_sizing e (st\<lparr>first := 0\<rparr>) = Inr (st\<lparr>first := 0, npartner := np1\<rparr>)"
    "length np1 = nat (atom_nmax e)"
    "take (nat (atom_nlocal e)) np1 =
       map (\<lambda>i. int (length (created e i))) (count_up (atom_nlocal e))"
proof -
  have "\<forall>a\<in>set (list_ilist e). 0 \<le> a \<and> nat a < length (npartner (st\<lparr>first := 0\<rparr>))"
    using assms is_local_nat [OF assms(1)] neigh_ok_ilist [OF assms(1)]
    by (auto simp: unbuilt_def is_local_def)
  from setup_sizing_loop [OF this, of e] obtain np1 where
    np: "setup_sizing e (st\<lparr>first := 0\<rparr>) = Inr (st\<lparr>first := 0, npartner := np1\<rparr>)"
      "length np1 = length (npartner st)"
      "\<And>k. 0 \<le> k \<Longrightarrow> np1 ! nat k = npartner st ! nat k + int (length (created e k))"
    by (auto simp: setup_sizing_def created_def)
  have len: "length np1 = nat (atom_nmax e)"
    using np(2) assms(2) by (simp add: unbuilt_def)
  have le: "nat (atom_nlocal e) \<le> nat (atom_nmax e)"
    using assms(1) by (rule neigh_ok_le)
  have "take (nat (atom_nlocal e)) np1 =
       map (\<lambda>i. int (length (created e i))) (count_up (atom_nlocal e))"
  proof (rule nth_equalityI)
    show "length (take (nat (atom_nlocal e)) np1) =
        length (map (\<lambda>i. int (length (created e i))) (count_up (atom_nlocal e)))"
      using le by (simp add: len count_up_def)
  next
    fix q assume "q < length (take (nat (atom_nlocal e)) np1)"
    then have q: "q < nat (atom_nlocal e)" by simp
    then have "is_local e (int q)" by (simp add: is_local_def)
    from unbuilt_zero [OF assms(2) this] np(3) [of "int q"]
    have "np1 ! q = int (length (created e (int q)))" by simp
    with q show "take (nat (atom_nlocal e)) np1 ! q =
        map (\<lambda>i. int (length (created e i))) (count_up (atom_nlocal e)) ! q"
      by (simp add: count_up_def)
  qed
  with np(1) len show thesis by (rule that)
qed

lemma setup_localmax_result:
  assumes "nat (atom_nlocal e) \<le> length (npartner st)"
  shows "setup_localmax e st = Inr (fold max (take (nat (atom_nlocal e)) (npartner st)) 0)"
  using setup_localmax_loop [OF assms, of 0, folded count_up_nat]
  by (simp add: setup_localmax_def)

lemma setup_contribution_result:
  assumes "neigh_ok e" "unbuilt e st"
  shows "setup_contribution (e, st) = Inr (local_degree_max e)"
proof -
  from setup_sizing_result [OF assms] obtain np1 where
    np: "setup_sizing e (st\<lparr>first := 0\<rparr>) = Inr (st\<lparr>first := 0, npartner := np1\<rparr>)"
    "length np1 = nat (atom_nmax e)"
    "take (nat (atom_nlocal e)) np1 =
       map (\<lambda>i. int (length (created e i))) (count_up (atom_nlocal e))"
    by blast
  have "nat (atom_nlocal e) \<le> length (npartner (st\<lparr>first := 0, npartner := np1\<rparr>))"
    using neigh_ok_le [OF assms(1)] np(2) by simp
  from setup_localmax_result [OF this] show ?thesis
    by (simp add: setup_contribution_def np(1,3) local_degree_max_def)
qed

lemma bonds_empty: "npartner st ! nat i = 0 \<Longrightarrow> bonds st i = []"
  by (simp add: bonds_def)

lemma setup_bonds_result:
  assumes "neigh_ok e" "unbuilt e st"
  obtains s4 where "setup_bonds e others st = Inr s4" "first s4 = 0"
    "sized s4 (nat (atom_nmax e))"
    "maxpartner s4 = allreduce_max (local_degree_max e) others"
    "\<And>i. is_local e i \<Longrightarrow> bonds s4 i = created e i \<and>
        npartner s4 ! nat i = int (length (created e i)) \<and> wvolume s4 ! nat i = 0"
proof -
  define nl where "nl = nat (atom_nlocal e)"
  define maxall where "maxall = allreduce_max (local_degree_max e) others"
  from setup_sizing_result [OF assms] obtain np1 where
    np: "setup_sizing e (st\<lparr>first := 0\<rparr>) = Inr (st\<lparr>first := 0, npartner := np1\<rparr>)"
    "length np1 = nat (atom_nmax e)"
    "take (nat (atom_nlocal e)) np1 =
       map (\<lambda>i. int (length (created e i))) (count_up (atom_nlocal e))"
    by blast
  define s1 where "s1 = st\<lparr>first := 0, npartner := np1\<rparr>"
  have le: "nl \<le> nat (atom_nmax e)"
    using neigh_ok_le [OF assms(1)] by (simp add: nl_def)
  have lm: "setup_localmax e s1 = Inr (local_degree_max e)"
    using setup_localmax_result [of e s1] le
    by (simp add: s1_def np(2,3) local_degree_max_def nl_def)
  define s2 where "s2 = setup_realloc e (s1\<lparr>maxpartner := maxall\<rparr>)"
  have s2: "sized s2 (nat (atom_nmax e))" "first s2 = 0" "maxpartner s2 = maxall"
    by (simp_all add: s2_def sized_setup_realloc s1_def)
  note l2 = sized_lengths [OF s2(1)]
  define s3 where "s3 = s2\<lparr>npartner := replicate nl 0 @ drop nl (npartner s2),
                 vinter := replicate nl 0 @ drop nl (vinter s2),
                 wvolume := replicate nl 0 @ drop nl (wvolume s2)\<rparr>"
  have rs: "foldE setup_reset (count_up (atom_nlocal e)) s2 = Inr s3"
    unfolding s3_def nl_def using le [unfolded nl_def]
    by (intro setup_reset_loop [of "nat (atom_nlocal e)" s2, folded count_up_nat])
      (simp_all add: l2)
  have s3: "sized s3 (nat (atom_nmax e))" "first s3 = 0" "maxpartner s3 = maxall"
    using s2 le by (auto simp: sized_def s3_def)
  have z3: "npartner s3 ! nat i = 0 \<and> wvolume s3 ! nat i = 0" if "is_local e i" for i
  proof -
    from that have "nat i < nl" by (simp add: is_local_def nl_def)
    then show ?thesis by (simp add: s3_def nth_append)
  qed
  have pre: "\<forall>a\<in>set (list_ilist e). 0 \<le> a \<and> nat a < nat (atom_nmax e) \<and> 0 \<le> npartner s3 ! nat a \<and>
           npartner s3 ! nat a + int (length (created_in e (list_ilist e) a)) \<le> maxpartner s3"
  proof
    fix a assume "a \<in> set (list_ilist e)"
    then have a: "is_local e a" by (rule neigh_ok_ilist [OF assms(1)])
    have "int (length (created e a)) \<le> local_degree_max e"
      by (rule local_degree_max_props(2) [OF a])
    also have "\<dots> \<le> maxall"
      unfolding maxall_def by (rule allreduce_max_props(1))
    finally show "0 \<le> a \<and> nat a < nat (atom_nmax e) \<and> 0 \<le> npartner s3 ! nat a \<and>
           npartner s3 ! nat a + int (length (created_in e (list_ilist e) a)) \<le> maxpartner s3"
      using a z3 [OF a] is_local_nat [OF assms(1) a]
      by (simp add: s3(3) is_local_def created_def)
  qed
  from setup_populate_loop [OF s3(1) pre] obtain s4 where
    s4: "setup_populate e s3 = Inr s4" "sized s4 (nat (atom_nmax e))" "first s4 = first s3"
      "maxpartner s4 = maxpartner s3" "wvolume s4 = wvolume s3"
      "\<And>k. 0 \<le> k \<Longrightarrow> bonds s4 k = bonds s3 k @ created e k \<and>
                npartner s4 ! nat k = npartner s3 ! nat k + int (length (created e k))"
    unfolding setup_populate_def created_def by blast
  have run: "setup_bonds e others st = Inr s4"
    by (simp add: setup_bonds_def np(1) lm Let_def rs s4(1)
        flip: s1_def maxall_def s2_def)
  have loc: "bonds s4 i = created e i \<and>
        npartner s4 ! nat i = int (length (created e i)) \<and> wvolume s4 ! nat i = 0"
    if "is_local e i" for i
  proof -
    from that have "0 \<le> i" by (simp add: is_local_def)
    from s4(6) [OF this] z3 [OF that] show ?thesis
      by (simp add: bonds_empty s4(5))
  qed
  show thesis
    by (rule that [OF run _ s4(2) _ loc]) (simp_all add: s4 s3 maxall_def)
qed

subsection \<open>The constructor leaves the store unbuilt\<close>

lemma constructor_zero_loop:
  "k \<le> length (npartner st) \<Longrightarrow>
   foldE constructor_zero (count_up (int k)) st =
   Inr (st\<lparr>npartner := replicate k 0 @ drop k (npartner st)\<rparr>)"
proof (induction k)
  case 0
  then show ?case by simp
next
  case (Suc k)
  then show ?case
    by (simp add: foldE_append constructor_zero_def wr_ok list_update_drop_append
        replicate_append_same)
qed

lemma constructor_unbuilt:
  assumes "atom_nlocal e \<le> atom_nmax e"
  shows "\<exists>st. constructor e = Inr st \<and> unbuilt e st \<and> sized st (nat (atom_nmax e)) \<and>
           maxpartner st = 1"
proof -
  define s0 where "s0 = grow_arrays e (atom_nmax e)
          \<lparr>first = 1, maxpartner = 1, npartner = [], partner = [], r0 = [],
           vinter = [], wvolume = []\<rparr>"
  define nl where "nl = nat (atom_nlocal e)"
  have s0: "sized s0 (nat (atom_nmax e))" "first s0 = 1" "maxpartner s0 = 1"
    by (simp_all add: s0_def sized_grow_arrays)
  have le: "nl \<le> length (npartner s0)"
    using assms sized_lengths(1) [OF s0(1)] by (simp add: nl_def nat_mono)
  define st where "st = s0\<lparr>npartner := replicate nl 0 @ drop nl (npartner s0)\<rparr>"
  have run: "constructor e = Inr st"
    unfolding constructor_def st_def nl_def s0_def [symmetric]
    using le [unfolded nl_def]
    by (rule constructor_zero_loop [of "nat (atom_nlocal e)" s0, folded count_up_nat])
  have sz: "sized st (nat (atom_nmax e))"
    using s0(1) le by (auto simp: sized_def st_def)
  have "npartner st ! nat i = 0" if "i \<in> set (count_up (atom_nlocal e))" for i
  proof -
    from that have "nat i < nl" by (auto simp: set_count_up nl_def)
    then show ?thesis by (simp add: st_def nth_append)
  qed
  then have "unbuilt e st"
    using sized_lengths(1) [OF sz] by (simp add: unbuilt_def list_all_iff st_def s0(2))
  with run sz show ?thesis by (auto simp: st_def s0(3))
qed

subsection \<open>Errors and frames of the build\<close>

lemma foldE_preserves:
  assumes "\<And>a s s'. f a s = Inr s' \<Longrightarrow> P s \<Longrightarrow> P s'"
  shows "foldE f xs s = Inr s' \<Longrightarrow> P s \<Longrightarrow> P s'"
proof (induction xs arbitrary: s)
  case Nil
  then show ?case by simp
next
  case (Cons a xs)
  from Cons.prems(1) obtain s1 where "f a s = Inr s1" "foldE f xs s1 = Inr s'"
    by (auto simp: andThen_eq_Inr)
  with Cons.IH [of s1] assms [of a s s1] Cons.prems(2) show ?case by blast
qed

lemma only_oob_Inr [simp]: "only_oob (Inr v)"
  by (simp add: only_oob_def)

lemma only_oob_Inl [simp]: "only_oob (Inl err) \<longleftrightarrow> err = OutOfBounds"
  by (simp add: only_oob_def)

lemma only_oob_rd [simp]: "only_oob (rd xs i)"
  by (simp add: rd_def)

lemma only_oob_wr [simp]: "only_oob (wr xs i v)"
  by (simp add: wr_def)

lemma only_oob_andThen: "only_oob m \<Longrightarrow> (\<And>v. only_oob (f v)) \<Longrightarrow> only_oob (andThen m f)"
  by (cases m) (simp_all add: only_oob_def)

lemma only_oob_rd2 [simp]: "only_oob (rd2 xss i k)"
  by (simp add: rd2_def only_oob_andThen)

lemma only_oob_wr2 [simp]: "only_oob (wr2 xss i k v)"
  by (simp add: wr2_def only_oob_andThen)

lemma only_oob_foldE: "(\<And>a s. only_oob (f a s)) \<Longrightarrow> only_oob (foldE f xs s)"
  by (induction xs arbitrary: s) (simp_all add: only_oob_andThen)

lemma only_oob_setup_count [simp]: "only_oob (setup_count e i j st)"
  by (simp add: setup_count_def Let_def only_oob_andThen)

lemma only_oob_setup_bond [simp]: "only_oob (setup_bond e i j st)"
  by (simp add: setup_bond_def Let_def only_oob_andThen)

lemma only_oob_setup_reset [simp]: "only_oob (setup_reset i st)"
  by (simp add: setup_reset_def only_oob_andThen)

lemma only_oob_setup_bonds [simp]: "only_oob (setup_bonds e others st)"
  by (simp add: setup_bonds_def setup_sizing_def setup_localmax_def setup_populate_def Let_def
      only_oob_andThen only_oob_foldE)

lemma only_oob_wvolume_bond [simp]: "only_oob (wvolume_bond e i jj st)"
  by (simp add: wvolume_bond_def wvolume_add_def Let_def only_oob_andThen split: pair_style.split)

lemma only_oob_setup_wvolume [simp]: "only_oob (setup_wvolume e st)"
  by (simp add: setup_wvolume_def wvolume_atom_def only_oob_andThen only_oob_foldE)

lemma only_oob_unpack_comm_one [simp]: "only_oob (unpack_comm_one buf i sm)"
  by (simp add: unpack_comm_one_def only_oob_andThen split: prod.split)

lemma only_oob_forward_comm_fix [simp]: "only_oob (forward_comm_fix e st)"
  by (simp add: forward_comm_fix_def forward_comm_swap_def pack_comm_def pack_comm_one_def
      unpack_comm_def Let_def only_oob_andThen only_oob_foldE)

lemma setup_peri_Inl:
  assumes "setup_peri e others st = Inl DuplicateParticle"
  shows "\<exists>s4. setup_bonds e others st = Inr s4 \<and> duplicate_check e s4 = Inl DuplicateParticle"
proof -
  from assms have f: "first st \<noteq> 0"
    by (auto simp: setup_peri_def)
  have a: "setup_bonds e others st \<noteq> Inl DuplicateParticle"
    using only_oob_setup_bonds [of e others st] by (auto simp: only_oob_def)
  have b: "setup_wvolume e s \<noteq> Inl DuplicateParticle" for s
    using only_oob_setup_wvolume [of e s] by (auto simp: only_oob_def)
  have c: "forward_comm_fix e s \<noteq> Inl DuplicateParticle" for s
    using only_oob_forward_comm_fix [of e s] by (auto simp: only_oob_def)
  from assms f a b c show ?thesis
    by (auto simp: setup_peri_def andThen_def split: sum.splits)
qed

lemma setup_count_first: "setup_count e i j s = Inr s' \<Longrightarrow> first s' = first s"
  by (auto simp: setup_count_def Let_def andThen_eq_Inr split: if_splits)

lemma setup_reset_first: "setup_reset i s = Inr s' \<Longrightarrow> first s' = first s"
  by (auto simp: setup_reset_def andThen_eq_Inr)

lemma setup_bond_first: "setup_bond e i j s = Inr s' \<Longrightarrow> first s' = first s"
  by (auto simp: setup_bond_def Let_def andThen_eq_Inr split: if_splits)

lemma setup_bonds_first:
  assumes "setup_bonds e others st = Inr s4"
  shows "first s4 = 0"
proof -
  from assms obtain s1 m s3 where
    s: "setup_sizing e (st\<lparr>first := 0\<rparr>) = Inr s1" "setup_localmax e s1 = Inr m"
      "foldE setup_reset (count_up (atom_nlocal e))
         (setup_realloc e (s1\<lparr>maxpartner := allreduce_max m others\<rparr>)) = Inr s3"
      "setup_populate e s3 = Inr s4"
    by (auto simp: setup_bonds_def andThen_eq_Inr Let_def)
  have "first s1 = 0"
    using s(1) unfolding setup_sizing_def
    by (rule foldE_preserves [where P = "\<lambda>s. first s = 0", rotated])
      (auto elim: foldE_preserves [where P = "\<lambda>s. first s = 0", rotated] simp: setup_count_first)
  then have "first (setup_realloc e (s1\<lparr>maxpartner := allreduce_max m others\<rparr>)) = 0"
    by (simp add: sized_setup_realloc)
  with s(3) have "first s3 = 0"
    by (rule foldE_preserves [where P = "\<lambda>s. first s = 0", rotated]) (simp add: setup_reset_first)
  with s(4) show ?thesis
    unfolding setup_populate_def
    by (rule foldE_preserves [where P = "\<lambda>s. first s = 0", rotated])
      (auto elim: foldE_preserves [where P = "\<lambda>s. first s = 0", rotated] simp: setup_bond_first)
qed

lemma wvolume_bond_frame: "wvolume_bond e i jj s = Inr s' \<Longrightarrow> \<exists>wv. s' = s\<lparr>wvolume := wv\<rparr>"
proof -
  have a: "wvolume_add s i c = Inr s' \<Longrightarrow> \<exists>wv. s' = s\<lparr>wvolume := wv\<rparr>" for c
    by (auto simp: wvolume_add_def andThen_eq_Inr)
  have b: "\<exists>wv. s = s\<lparr>wvolume := wv\<rparr>"
    by (rule exI [of _ "wvolume s"]) simp
  assume run: "wvolume_bond e i jj s = Inr s'"
  then obtain p where p: "rd2 (partner s) i jj = Inr p"
    by (auto simp: wvolume_bond_def andThen_eq_Inr)
  show ?thesis
  proof (cases "p = 0 \<or> atom_map e p < 0")
    case True
    with run p have "s' = s" by (auto simp: wvolume_bond_def Let_def split: if_splits)
    with b show ?thesis by simp
  next
    case False
    with run p obtain r where r: "rd2 (r0 s) i jj = Inr r"
      by (auto simp: wvolume_bond_def Let_def andThen_eq_Inr)
    show ?thesis
    proof (cases "pair_anypair e")
      case PairPeriPMB
      with run p r False show ?thesis
        by (intro a [of "1 * rsq0 e i (atom_map e p) * atom_vfrac e (atom_map e p) *
            vfrac_scale (half_lc e) r (delta e i (atom_map e p))"])
          (simp add: wvolume_bond_def Let_def)
    next
      case (PairPeriLPS f)
      with run p r False show ?thesis
        by (intro a [of "f (del0 e i (atom_map e p) 0) (del0 e i (atom_map e p) 1)
            (del0 e i (atom_map e p) 2) * rsq0 e i (atom_map e p) * atom_vfrac e (atom_map e p) *
            vfrac_scale (half_lc e) r (delta e i (atom_map e p))"])
          (simp add: wvolume_bond_def Let_def)
    next
      case PairOther
      with run p r False have "s' = s" by (simp add: wvolume_bond_def Let_def)
      with b show ?thesis by simp
    qed
  qed
qed

lemma setup_wvolume_frame:
  assumes "setup_wvolume e st = Inr st'"
  shows "\<exists>wv. st' = st\<lparr>wvolume := wv\<rparr>"
proof -
  let ?P = "\<lambda>s. \<exists>wv. s = st\<lparr>wvolume := wv\<rparr>"
  have step: "?P s'" if "wvolume_bond e i jj s = Inr s'" "?P s" for i jj s s'
    using wvolume_bond_frame [OF that(1)] that(2) by auto
  have atom: "?P s'" if "wvolume_atom e i s = Inr s'" "?P s" for i s s'
  proof -
    from that(1) obtain jnum where "foldE (wvolume_bond e i) (count_up jnum) s = Inr s'"
      by (auto simp: wvolume_atom_def andThen_eq_Inr)
    then show ?thesis using that(2)
      by (rule foldE_preserves [where P = ?P, rotated]) (rule step)
  qed
  have "?P st" by (rule exI [of _ "wvolume st"]) simp
  with assms [unfolded setup_wvolume_def] show ?thesis
    by (rule foldE_preserves [where P = ?P, rotated]) (rule atom)
qed

lemma unpack_comm_frame:
  assumes "unpack_comm st n frst buf = Inr st'"
  shows "\<exists>wv. st' = st\<lparr>wvolume := wv\<rparr>"
proof -
  let ?P = "\<lambda>sm. \<exists>wv. fst sm = st\<lparr>wvolume := wv\<rparr>"
  have step: "?P sm'" if "unpack_comm_one buf i sm = Inr sm'" "?P sm" for i sm sm'
    using that by (cases sm) (auto simp: unpack_comm_one_def andThen_eq_Inr)
  from assms obtain sm where
    sm: "foldE (unpack_comm_one buf) (count_from frst (frst + n)) (st, 0) = Inr sm" "st' = fst sm"
    by (auto simp: unpack_comm_def Let_def andThen_eq_Inr)
  have "\<exists>wv. st = st\<lparr>wvolume := wv\<rparr>" by (rule exI [of _ "wvolume st"]) simp
  then have "?P (st, 0)" by simp
  with sm(1) have "?P sm"
    by (rule foldE_preserves [where P = ?P, rotated]) (rule step)
  with sm(2) show ?thesis by simp
qed

lemma forward_comm_fix_frame:
  assumes "forward_comm_fix e st = Inr st'"
  shows "\<exists>wv. st' = st\<lparr>wvolume := wv\<rparr>"
proof -
  let ?P = "\<lambda>s. \<exists>wv. s = st\<lparr>wvolume := wv\<rparr>"
  have step: "?P s'" if "forward_comm_swap sw s = Inr s'" "?P s" for sw s s'
  proof -
    from that(1) obtain b where "unpack_comm s (recvnum sw) (firstrecv sw) b = Inr s'"
      by (auto simp: forward_comm_swap_def andThen_eq_Inr)
    from unpack_comm_frame [OF this] that(2) show ?thesis by auto
  qed
  have "?P st" by (rule exI [of _ "wvolume st"]) simp
  with assms [unfolded forward_comm_fix_def] show ?thesis
    by (rule foldE_preserves [where P = ?P, rotated]) (rule step)
qed

lemma setup_peri_Inr:
  assumes "setup_peri e others st = Inr st'" "first st \<noteq> 0"
  obtains s4 wv where "setup_bonds e others st = Inr s4" "duplicate_check e s4 = Inr ()"
    "st' = s4\<lparr>wvolume := wv\<rparr>"
proof -
  from assms obtain s4 u s5 where
    s: "setup_bonds e others st = Inr s4" "duplicate_check e s4 = Inr u"
      "setup_wvolume e s4 = Inr s5" "forward_comm_fix e s5 = Inr st'"
    by (auto simp: setup_peri_def andThen_eq_Inr)
  from setup_wvolume_frame [OF s(3)] forward_comm_fix_frame [OF s(4)]
  obtain wv where "st' = s4\<lparr>wvolume := wv\<rparr>" by auto
  with s(1,2) show thesis by (intro that [of s4 wv]) simp_all
qed

text \<open>
  Claim C7. A call of \<open>setup\<close> on a store whose flag \<open>first\<close> is 0 returns at once
  and leaves the store, with \<open>npartner\<close>, \<open>partner\<close>, \<open>r0\<close>, \<open>vinter\<close>,
  \<open>wvolume\<close> and \<open>maxpartner\<close>, as it is. A build that succeeds ends with
  \<open>first = 0\<close>, so every later call, whatever its neighbour list and the values
  of the other ranks, is such a call.
\<close>

theorem build_once:
  "(first st = 0 \<longrightarrow> setup_peri e others st = Inr st) \<and>
   (setup_peri e others st = Inr st' \<longrightarrow>
      first st' = 0 \<and> (\<forall>e' others'. setup_peri e' others' st' = Inr st'))"
proof -
  have idle: "setup_peri e' others' s = Inr s" if "first s = 0" for e' others' s
    using that by (simp add: setup_peri_def)
  have "first st' = 0" if run: "setup_peri e others st = Inr st'"
  proof (cases "first st = 0")
    case True
    with run show ?thesis by (simp add: setup_peri_def)
  next
    case False
    from setup_peri_Inr [OF run False] obtain s4 wv where
      "setup_bonds e others st = Inr s4" "st' = s4\<lparr>wvolume := wv\<rparr>" by blast
    with setup_bonds_first [of e others st s4] show ?thesis by simp
  qed
  with idle show ?thesis by blast
qed

subsection \<open>The bonds that the build creates\<close>

lemma setup_bond_overflow:
  assumes "sized st n" "0 \<le> i" "nat i < n" "in_cutoff e i (jraw AND neighmask e)"
    and "maxpartner st \<le> npartner st ! nat i"
  shows "setup_bond e i jraw st = Inl OutOfBounds"
proof -
  note sl = sized_lengths [OF assms(1)] sized_rows [OF assms(1,3)]
  have "wr (partner st ! nat i) (npartner st ! nat i) v = Inl OutOfBounds" for v
    using assms(5) by (auto simp: wr_def sl)
  then show ?thesis
    using assms(2-4) by (simp add: setup_bond_def Let_def rd_ok sl wr2_def)
qed

text \<open>
  Claim C8. Let \<open>setup\<close> be called for the first time: the neighbour list names local
  particles that fit in storage, and \<open>npartner\<close> of the local slots is 0. Then the first
  part of \<open>setup\<close>, up to the end of the population pass, ends without an access out of
  bounds: both scans count the same candidates, \<open>maxpartner\<close> is the all-reduce maximum
  over the local maximum of the sizing pass and so at least that local maximum, and the
  rows are reallocated with \<open>maxpartner\<close> entries before any bond is written. Every
  local particle ends with as many bonds as the sizing pass counted. A write of a bond
  at an index \<open>npartner[i] >= maxpartner\<close> would be the error \<open>OutOfBounds\<close>.
\<close>

theorem population_in_bounds:
  assumes "neigh_ok e" "unbuilt e st"
  shows "(\<exists>s4. setup_bonds e others st = Inr s4 \<and> sized s4 (nat (atom_nmax e)) \<and>
            maxpartner s4 = allreduce_max (local_degree_max e) others \<and>
            local_degree_max e \<le> maxpartner s4 \<and>
            (\<forall>i. is_local e i \<longrightarrow>
               npartner s4 ! nat i = int (length (created e i)) \<and>
               npartner s4 ! nat i \<le> local_degree_max e)) \<and>
         (\<forall>s n i jraw. sized s n \<and> 0 \<le> i \<and> nat i < n \<and> in_cutoff e i (jraw AND neighmask e) \<and>
            maxpartner s \<le> npartner s ! nat i \<longrightarrow> setup_bond e i jraw s = Inl OutOfBounds)"
proof -
  from setup_bonds_result [OF assms, of others] obtain s4 where
    s4: "setup_bonds e others st = Inr s4" "sized s4 (nat (atom_nmax e))"
    "maxpartner s4 = allreduce_max (local_degree_max e) others"
    "\<And>i. is_local e i \<Longrightarrow> bonds s4 i = created e i \<and>
        npartner s4 ! nat i = int (length (created e i)) \<and> wvolume s4 ! nat i = 0"
    by blast
  have "local_degree_max e \<le> maxpartner s4"
    unfolding s4(3) by (rule allreduce_max_props(1))
  moreover have "npartner s4 ! nat i = int (length (created e i)) \<and>
      npartner s4 ! nat i \<le> local_degree_max e" if "is_local e i" for i
    using s4(4) [OF that] local_degree_max_props(2) [OF that] by simp
  ultimately show ?thesis
    using s4(1-3) setup_bond_overflow by blast
qed

lemma created_distinct:
  assumes "distinct il" "i \<in> set il"
  shows "created_in e il i = map (bond_of e i) (accepted e i)"
  using assms
proof (induction il)
  case Nil
  then show ?case by simp
next
  case (Cons a il)
  show ?case
  proof (cases "a = i")
    case True
    with Cons.prems have "i \<notin> set il" by simp
    then have "created_in e il i = []"
      by (induction il) (simp_all add: created_in_Cons)
    with True show ?thesis by (simp add: created_in_Cons)
  next
    case False
    with Cons show ?thesis by (simp add: created_in_Cons)
  qed
qed

text \<open>
  Claim C3. Let \<open>setup\<close> be called for the first time, let \<open>i\<close> occur once in
  \<open>ilist\<close>, and let \<open>d j\<close> be the squared distance of \<open>i\<close> and \<open>j\<close> as the code
  computes it from the positions, in double. After the population pass the bonds of \<open>i\<close>
  are, in order, those of the candidates \<open>j\<close> of \<open>i\<close> with \<open>d j <= cutsq[itype][jtype]\<close>,
  each with the tag of \<open>j\<close> and \<open>r0 = sqrt(d j)\<close>, and no others. A candidate with
  \<open>d j = cutsq[itype][jtype]\<close> gives a bond. The rest of \<open>setup\<close> leaves the bonds as
  they are.
\<close>

theorem bond_iff_in_cutoff:
  assumes "neigh_ok e" "unbuilt e st" "distinct (list_ilist e)" "i \<in> set (list_ilist e)"
  shows "let d = (\<lambda>j. dbl_add e
                     (dbl_add e
                        (dbl_mul e (dbl_sub e (atom_x e i 0) (atom_x e j 0))
                                   (dbl_sub e (atom_x e i 0) (atom_x e j 0)))
                        (dbl_mul e (dbl_sub e (atom_x e i 1) (atom_x e j 1))
                                   (dbl_sub e (atom_x e i 1) (atom_x e j 1))))
                     (dbl_mul e (dbl_sub e (atom_x e i 2) (atom_x e j 2))
                                (dbl_sub e (atom_x e i 2) (atom_x e j 2))))
         in \<exists>s4. setup_bonds e others st = Inr s4 \<and>
              bonds s4 i =
                map (\<lambda>jraw. (atom_tag e (jraw AND neighmask e), dbl_sqrt e (d (jraw AND neighmask e))))
                  (filter (\<lambda>jraw. d (jraw AND neighmask e) \<le>
                                   pair_cutsq e (atom_type e i) (atom_type e (jraw AND neighmask e)))
                     (list_firstneigh e i)) \<and>
              (\<forall>jraw \<in> set (list_firstneigh e i).
                 d (jraw AND neighmask e) =
                   pair_cutsq e (atom_type e i) (atom_type e (jraw AND neighmask e)) \<longrightarrow>
                 (atom_tag e (jraw AND neighmask e), dbl_sqrt e (d (jraw AND neighmask e)))
                   \<in> set (bonds s4 i)) \<and>
              (\<forall>st'. setup_peri e others st = Inr st' \<longrightarrow> bonds st' i = bonds s4 i)"
proof -
  from setup_bonds_result [OF assms(1,2), of others] obtain s4 where
    s4: "setup_bonds e others st = Inr s4"
    "\<And>i. is_local e i \<Longrightarrow> bonds s4 i = created e i \<and>
        npartner s4 ! nat i = int (length (created e i)) \<and> wvolume s4 ! nat i = 0"
    by blast
  have loc: "is_local e i" by (rule neigh_ok_ilist [OF assms(1,4)])
  have b: "bonds s4 i =
             map (\<lambda>jraw. (atom_tag e (jraw AND neighmask e), dbl_sqrt e (rsq e i (jraw AND neighmask e))))
               (filter (\<lambda>jraw. rsq e i (jraw AND neighmask e) \<le>
                                pair_cutsq e (atom_type e i) (atom_type e (jraw AND neighmask e)))
                  (list_firstneigh e i))"
    using s4(2) [OF loc] created_distinct [OF assms(3,4), of e]
    by (simp add: created_def accepted_def passing_def in_cutoff_def bond_of_def)
  have c: "(atom_tag e (jraw AND neighmask e), dbl_sqrt e (rsq e i (jraw AND neighmask e)))
                \<in> set (bonds s4 i)"
    if "jraw \<in> set (list_firstneigh e i)"
      "rsq e i (jraw AND neighmask e) =
         pair_cutsq e (atom_type e i) (atom_type e (jraw AND neighmask e))" for jraw
    unfolding b using that by (auto simp: image_iff intro!: bexI [of _ jraw])
  have d: "bonds st' i = bonds s4 i" if run: "setup_peri e others st = Inr st'" for st'
  proof -
    from assms(2) have "first st \<noteq> 0" by (simp add: unbuilt_def)
    from setup_peri_Inr [OF run this] s4(1) obtain wv where "st' = s4\<lparr>wvolume := wv\<rparr>"
      by auto
    then show ?thesis by (simp add: bonds_def)
  qed
  from s4(1) b c d have
    "\<exists>s4. setup_bonds e others st = Inr s4 \<and>
       bonds s4 i =
         map (\<lambda>jraw. (atom_tag e (jraw AND neighmask e), dbl_sqrt e (rsq e i (jraw AND neighmask e))))
           (filter (\<lambda>jraw. rsq e i (jraw AND neighmask e) \<le>
                            pair_cutsq e (atom_type e i) (atom_type e (jraw AND neighmask e)))
              (list_firstneigh e i)) \<and>
       (\<forall>jraw \<in> set (list_firstneigh e i).
          rsq e i (jraw AND neighmask e) =
            pair_cutsq e (atom_type e i) (atom_type e (jraw AND neighmask e)) \<longrightarrow>
          (atom_tag e (jraw AND neighmask e), dbl_sqrt e (rsq e i (jraw AND neighmask e)))
            \<in> set (bonds s4 i)) \<and>
       (\<forall>st'. setup_peri e others st = Inr st' \<longrightarrow> bonds st' i = bonds s4 i)"
    by blast
  then show ?thesis
    unfolding rsq_def Let_def .
qed

lemma mapE_Inr:
  "mapE f xs = Inr ys \<Longrightarrow> length ys = length xs \<and> (\<forall>k<length xs. f (xs ! k) = Inr (ys ! k))"
proof (induction xs arbitrary: ys)
  case Nil
  then show ?case by simp
next
  case (Cons a xs)
  from Cons.prems obtain b bs where b: "f a = Inr b" "mapE f xs = Inr bs" "ys = b # bs"
    by (auto simp: andThen_eq_Inr)
  from Cons.IH [OF b(2)] b(1,3) show ?case
    by (auto simp: nth_Cons')
qed

lemma allreduce_max_all:
  assumes "k < length ms" "\<forall>x\<in>set ms. 0 \<le> x"
  shows "allreduce_max (ms ! k) (take k ms @ drop (Suc k) ms) = fold max ms 0"
proof -
  let ?A = "allreduce_max (ms ! k) (take k ms @ drop (Suc k) ms)"
  let ?B = "fold max ms 0"
  have ms: "ms = take k ms @ ms ! k # drop (Suc k) ms"
    using assms(1) by (rule id_take_nth_drop)
  have mem: "x \<in> set ms \<longleftrightarrow> x = ms ! k \<or> x \<in> set (take k ms @ drop (Suc k) ms)" for x
    by (subst ms) auto
  have a1: "x \<le> ?A" if "x \<in> set ms" for x
    using that allreduce_max_props(1,2) [where mine = "ms ! k" and others = "take k ms @ drop (Suc k) ms"]
    unfolding mem by blast
  have a2: "?A \<in> set ms"
    using allreduce_max_props(3) [where mine = "ms ! k" and others = "take k ms @ drop (Suc k) ms"]
    unfolding mem [of ?A] by blast
  have b1: "x \<le> ?B" if "x \<in> set ms" for x
    using that by (rule fold_max_ge_elem)
  have b2: "?B = 0 \<or> ?B \<in> set ms"
    by (rule fold_max_mem)
  have "?A \<le> ?B" using a2 by (rule b1)
  moreover have "?B \<le> ?A"
  proof (cases "?B = 0")
    case True
    from a2 assms(2) have "0 \<le> ?A" by blast
    with True show ?thesis by simp
  next
    case False
    with b2 have "?B \<in> set ms" by simp
    then show ?thesis by (rule a1)
  qed
  ultimately show ?thesis by simp
qed

lemma setup_peri_result:
  assumes "neigh_ok e" "unbuilt e st" "setup_peri e others st = Inr st'"
  shows "maxpartner st' = allreduce_max (local_degree_max e) others"
    and "is_local e i \<Longrightarrow> npartner st' ! nat i = int (length (created e i))"
proof -
  from setup_bonds_result [OF assms(1,2), of others] obtain s4 where
    s4: "setup_bonds e others st = Inr s4"
    "maxpartner s4 = allreduce_max (local_degree_max e) others"
    "\<And>i. is_local e i \<Longrightarrow> bonds s4 i = created e i \<and>
        npartner s4 ! nat i = int (length (created e i)) \<and> wvolume s4 ! nat i = 0"
    by blast
  from assms(2) have "first st \<noteq> 0" by (simp add: unbuilt_def)
  from setup_peri_Inr [OF assms(3) this] s4(1) obtain wv where st': "st' = s4\<lparr>wvolume := wv\<rparr>"
    by auto
  show "maxpartner st' = allreduce_max (local_degree_max e) others"
    by (simp add: st' s4(2))
  show "npartner st' ! nat i = int (length (created e i))" if "is_local e i"
    using s4(3) [OF that] by (simp add: st')
qed

text \<open>
  Claim C1. Let every rank call \<open>setup\<close> for the first time, and let the build end on
  all of them. Then \<open>maxpartner\<close> is the same number \<open>M\<close> on every rank; on every rank
  \<open>npartner[i] <= maxpartner\<close> for every local particle \<open>i\<close>; and \<open>M\<close> is the number
  of bonds of some local particle of some rank, or 0 when no particle has a bond. So
  \<open>M\<close> is the maximum of \<open>npartner\<close> over all local particles of all ranks. On each
  rank it is the result of \<open>MPI_Allreduce\<close> with \<open>MPI_MAX\<close> on the local maximum of that
  rank and the local maxima of the other ranks.
\<close>

theorem maxpartner_global:
  assumes pre: "\<forall>p\<in>set ps. neigh_ok (fst p) \<and> unbuilt (fst p) (snd p)"
    and run: "setup_all ps = Inr sts"
  shows "length sts = length ps \<and>
         (\<exists>M. (\<forall>k<length ps.
                  maxpartner (sts ! k) = M \<and>
                  (\<forall>i. is_local (fst (ps ! k)) i \<longrightarrow> npartner (sts ! k) ! nat i \<le> maxpartner (sts ! k))) \<and>
               (M = 0 \<or> (\<exists>k<length ps. \<exists>i. is_local (fst (ps ! k)) i \<and>
                                             npartner (sts ! k) ! nat i = M))) \<and>
         (\<exists>lms. length lms = length ps \<and>
            (\<forall>k<length ps.
               lms ! k = local_max (fst (ps ! k)) (sts ! k) \<and>
               maxpartner (sts ! k) = allreduce_max (lms ! k) (take k lms @ drop (Suc k) lms)))"
proof -
  from run obtain ms where
    ms: "mapE setup_contribution ps = Inr ms"
      "mapE (\<lambda>k. setup_peri (fst (ps ! k)) (take k ms @ drop (Suc k) ms) (snd (ps ! k)))
         [0..<length ps] = Inr sts"
    by (auto simp: setup_all_def andThen_eq_Inr)
  from mapE_Inr [OF ms(1)] have lms: "length ms = length ps"
    and c: "\<And>k. k < length ps \<Longrightarrow> setup_contribution (ps ! k) = Inr (ms ! k)" by simp_all
  from mapE_Inr [OF ms(2)] have lsts: "length sts = length ps"
    and r: "\<And>k. k < length ps \<Longrightarrow>
      setup_peri (fst (ps ! k)) (take k ms @ drop (Suc k) ms) (snd (ps ! k)) = Inr (sts ! k)"
    by simp_all
  have p: "neigh_ok (fst (ps ! k))" "unbuilt (fst (ps ! k)) (snd (ps ! k))" if "k < length ps" for k
    using pre that by simp_all
  have msk: "ms ! k = local_degree_max (fst (ps ! k))" if "k < length ps" for k
    using c [OF that] setup_contribution_result [OF p [OF that]] by simp
  have pos: "\<forall>x\<in>set ms. 0 \<le> x"
    using lms msk local_degree_max_props(1) by (auto simp: in_set_conv_nth)
  define M where "M = fold max ms 0"
  have mp: "maxpartner (sts ! k) = M" if "k < length ps" for k
    using setup_peri_result(1) [OF p [OF that] r [OF that]] that
    by (simp add: M_def lms pos flip: msk allreduce_max_all)
  have np: "npartner (sts ! k) ! nat i = int (length (created (fst (ps ! k)) i))"
    if "k < length ps" "is_local (fst (ps ! k)) i" for k i
    using setup_peri_result(2) [OF p [OF that(1)] r [OF that(1)] that(2)] .
  have le: "npartner (sts ! k) ! nat i \<le> maxpartner (sts ! k)"
    if "k < length ps" "is_local (fst (ps ! k)) i" for k i
  proof -
    have "npartner (sts ! k) ! nat i \<le> ms ! k"
      using np [OF that] local_degree_max_props(2) [OF that(2)] msk [OF that(1)] by simp
    also have "\<dots> \<le> M"
      unfolding M_def using that(1) lms by (intro fold_max_ge_elem) simp
    finally show ?thesis by (simp add: mp [OF that(1)])
  qed
  have att: "M = 0 \<or> (\<exists>k<length ps. \<exists>i. is_local (fst (ps ! k)) i \<and>
                                             npartner (sts ! k) ! nat i = M)"
  proof (cases "M = 0")
    case True
    then show ?thesis by simp
  next
    case False
    with fold_max_mem [of ms 0] have "M \<in> set ms" by (simp add: M_def)
    then obtain k where k: "k < length ps" "M = ms ! k"
      by (auto simp: in_set_conv_nth lms)
    with False msk [OF k(1)] local_degree_max_props(3) [of "fst (ps ! k)"]
    obtain i where "is_local (fst (ps ! k)) i" "M = int (length (created (fst (ps ! k)) i))"
      by auto
    with np [OF k(1) this(1)] k(1) show ?thesis by auto
  qed
  have lm: "ms ! k = local_max (fst (ps ! k)) (sts ! k)" if "k < length ps" for k
  proof -
    have eq: "map (\<lambda>i. npartner (sts ! k) ! nat i) (count_up (atom_nlocal (fst (ps ! k)))) =
        map (\<lambda>i. int (length (created (fst (ps ! k)) i))) (count_up (atom_nlocal (fst (ps ! k))))"
      using np [OF that] by (intro map_cong) (simp_all add: set_count_up is_local_def)
    show ?thesis
      by (simp only: msk [OF that] local_max_def local_degree_max_def eq)
  qed
  have ar: "maxpartner (sts ! k) = allreduce_max (ms ! k) (take k ms @ drop (Suc k) ms)"
    if "k < length ps" for k
    using setup_peri_result(1) [OF p [OF that] r [OF that]] by (simp add: msk [OF that])
  have "\<exists>lms. length lms = length ps \<and>
            (\<forall>k<length ps.
               lms ! k = local_max (fst (ps ! k)) (sts ! k) \<and>
               maxpartner (sts ! k) = allreduce_max (lms ! k) (take k lms @ drop (Suc k) lms))"
    using lms lm ar by (intro exI [of _ ms]) simp
  with lsts mp le att show ?thesis by blast
qed

lemma set_count_from: "set (count_from a b) = {k. a \<le> k \<and> k < b}"
proof -
  have "k \<in> (\<lambda>q. a + int q) ` {0..<nat (b - a)} \<longleftrightarrow> a \<le> k \<and> k < b" for k
  proof
    assume "k \<in> (\<lambda>q. a + int q) ` {0..<nat (b - a)}"
    then show "a \<le> k \<and> k < b" by auto
  next
    assume "a \<le> k \<and> k < b"
    then have "k = a + int (nat (k - a))" "nat (k - a) \<in> {0..<nat (b - a)}" by auto
    then show "k \<in> (\<lambda>q. a + int q) ` {0..<nat (b - a)}" by blast
  qed
  then show ?thesis by (auto simp: count_from_def)
qed

lemma foldE_unit_Inr: "foldE f xs () = Inr () \<longleftrightarrow> (\<forall>x\<in>set xs. f x () = Inr ())"
  by (induction xs) (auto simp: andThen_eq_Inr)

lemma foldE_unit_Inl: "foldE f xs () = Inl err \<Longrightarrow> \<exists>x\<in>set xs. f x () = Inl err"
proof (induction xs)
  case Nil
  then show ?case by simp
next
  case (Cons a xs)
  then show ?case by (cases "f a ()") auto
qed

lemma has_duplicate_iff:
  "has_duplicate e st \<longleftrightarrow>
     (\<exists>i jj kk. is_local e i \<and> 0 \<le> jj \<and> jj < kk \<and> kk < npartner st ! nat i \<and>
        partner st ! nat i ! nat jj = partner st ! nat i ! nat kk)"
proof
  assume "has_duplicate e st"
  then obtain i jj kk where "0 \<le> i" "i < atom_nlocal e" "0 \<le> jj" "jj < npartner st ! nat i"
    "jj + 1 \<le> kk" "kk < npartner st ! nat i"
    "partner st ! nat i ! nat jj = partner st ! nat i ! nat kk"
    by (auto simp: has_duplicate_def set_count_up set_count_from)
  then show "\<exists>i jj kk. is_local e i \<and> 0 \<le> jj \<and> jj < kk \<and> kk < npartner st ! nat i \<and>
        partner st ! nat i ! nat jj = partner st ! nat i ! nat kk"
    by (intro exI [of _ i] exI [of _ jj] exI [of _ kk]) (simp add: is_local_def)
next
  assume "\<exists>i jj kk. is_local e i \<and> 0 \<le> jj \<and> jj < kk \<and> kk < npartner st ! nat i \<and>
        partner st ! nat i ! nat jj = partner st ! nat i ! nat kk"
  then obtain i jj kk where h: "is_local e i" "0 \<le> jj" "jj < kk" "kk < npartner st ! nat i"
    "partner st ! nat i ! nat jj = partner st ! nat i ! nat kk" by blast
  then have "i \<in> set (count_up (atom_nlocal e))" "jj \<in> set (count_up (npartner st ! nat i))"
    "kk \<in> set (count_from (jj + 1) (npartner st ! nat i))"
    by (simp_all add: set_count_up set_count_from is_local_def)
  with h(5) show "has_duplicate e st"
    unfolding has_duplicate_def by blast
qed

lemma duplicate_pair_ok:
  assumes "sized st n" "0 \<le> i" "nat i < n" "npartner st ! nat i \<le> maxpartner st"
    and "0 \<le> jj" "jj < kk" "kk < npartner st ! nat i"
  shows "duplicate_pair st i jj kk () =
         (if partner st ! nat i ! nat jj = partner st ! nat i ! nat kk
          then Inl DuplicateParticle else Inr ())"
proof -
  note sl = sized_lengths [OF assms(1)] sized_rows [OF assms(1,3)]
  from assms(4-7) have "nat jj < nat (maxpartner st)" "nat kk < nat (maxpartner st)" "0 \<le> kk"
    by linarith+
  then show ?thesis
    using assms(2,3,5) by (simp add: duplicate_pair_def rd2_ok sl)
qed

lemma duplicate_check_result:
  assumes wf: "sized st n" "atom_nlocal e \<le> int n"
    "\<forall>i. is_local e i \<longrightarrow> npartner st ! nat i \<le> maxpartner st"
  shows "duplicate_check e st =
         (if periodic e \<and> has_duplicate e st then Inl DuplicateParticle else Inr ())"
proof -
  let ?atoms = "foldE (duplicate_atom st) (count_up (atom_nlocal e)) ()"
  have loc: "0 \<le> i \<and> nat i < n \<and> npartner st ! nat i \<le> maxpartner st"
    if "i \<in> set (count_up (atom_nlocal e))" for i
    using that wf(2,3) by (auto simp: set_count_up is_local_def)
  have rdn: "rd (npartner st) i = Inr (npartner st ! nat i)"
    if "i \<in> set (count_up (atom_nlocal e))" for i
    using loc [OF that] by (simp add: rd_ok sized_lengths [OF wf(1)])
  have pair: "duplicate_pair st i jj kk () =
         (if partner st ! nat i ! nat jj = partner st ! nat i ! nat kk
          then Inl DuplicateParticle else Inr ())"
    if "i \<in> set (count_up (atom_nlocal e))" "jj \<in> set (count_up (npartner st ! nat i))"
      "kk \<in> set (count_from (jj + 1) (npartner st ! nat i))" for i jj kk
    using loc [OF that(1)] that(2,3)
    by (intro duplicate_pair_ok [OF wf(1)]) (simp_all add: set_count_up set_count_from)
  have ok: "?atoms = Inr () \<longleftrightarrow> \<not> has_duplicate e st"
    unfolding has_duplicate_def foldE_unit_Inr duplicate_atom_def
    by (auto simp: rdn pair foldE_unit_Inr split: if_splits)
  have err: "err = DuplicateParticle" if "?atoms = Inl err" for err
  proof -
    from foldE_unit_Inl [OF that] obtain i where
      i: "i \<in> set (count_up (atom_nlocal e))" "duplicate_atom st i () = Inl err" by blast
    then have "foldE (\<lambda>jj. foldE (duplicate_pair st i jj) (count_from (jj + 1) (npartner st ! nat i)))
        (count_up (npartner st ! nat i)) () = Inl err"
      by (simp add: duplicate_atom_def rdn)
    from foldE_unit_Inl [OF this] obtain jj where
      jj: "jj \<in> set (count_up (npartner st ! nat i))"
        "foldE (duplicate_pair st i jj) (count_from (jj + 1) (npartner st ! nat i)) () = Inl err"
      by blast
    from foldE_unit_Inl [OF jj(2)] obtain kk where
      "kk \<in> set (count_from (jj + 1) (npartner st ! nat i))" "duplicate_pair st i jj kk () = Inl err"
      by blast
    with pair [OF i(1) jj(1)] show ?thesis by (auto split: if_splits)
  qed
  have "?atoms = (if has_duplicate e st then Inl DuplicateParticle else Inr ())"
  proof (cases ?atoms)
    case (Inl err)
    with err [of err] ok show ?thesis by auto
  next
    case (Inr u)
    with ok show ?thesis by auto
  qed
  then show ?thesis
    by (simp add: duplicate_check_def periodic_def)
qed

text \<open>
  Claim C4. On a store with \<open>npartner[i] <= maxpartner\<close> for the local particles, the
  check for duplicates is \<open>DuplicateParticle\<close> when some axis is periodic and some local
  particle has the same tag in two slots \<open>jj < kk\<close> below \<open>npartner[i]\<close>, and ends
  without error otherwise. When \<open>setup\<close> is called for the first time, it raises
  \<open>DuplicateParticle\<close> exactly when some axis is periodic and the store that the
  population pass has left has such a particle. With no periodic axis the check does
  nothing and \<open>setup\<close> never raises \<open>DuplicateParticle\<close>.
\<close>

theorem duplicate_guard:
  assumes "neigh_ok e" "unbuilt e st"
  shows "(\<forall>s n. sized s n \<and> atom_nlocal e \<le> int n \<and>
              (\<forall>i. is_local e i \<longrightarrow> npartner s ! nat i \<le> maxpartner s) \<longrightarrow>
            duplicate_check e s =
              (if (domain_xperiodic e \<or> domain_yperiodic e \<or> domain_zperiodic e) \<and>
                  (\<exists>i jj kk. is_local e i \<and> 0 \<le> jj \<and> jj < kk \<and> kk < npartner s ! nat i \<and>
                     partner s ! nat i ! nat jj = partner s ! nat i ! nat kk)
               then Inl DuplicateParticle else Inr ())) \<and>
         (\<exists>s4. setup_bonds e others st = Inr s4 \<and>
            (setup_peri e others st = Inl DuplicateParticle \<longleftrightarrow>
               (domain_xperiodic e \<or> domain_yperiodic e \<or> domain_zperiodic e) \<and>
               (\<exists>i jj kk. is_local e i \<and> 0 \<le> jj \<and> jj < kk \<and> kk < npartner s4 ! nat i \<and>
                  partner s4 ! nat i ! nat jj = partner s4 ! nat i ! nat kk))) \<and>
         (\<not> (domain_xperiodic e \<or> domain_yperiodic e \<or> domain_zperiodic e) \<longrightarrow>
            (\<forall>s o'. duplicate_check e s = Inr () \<and> setup_peri e o' s \<noteq> Inl DuplicateParticle))"
proof -
  have a: "duplicate_check e s =
              (if (domain_xperiodic e \<or> domain_yperiodic e \<or> domain_zperiodic e) \<and>
                  (\<exists>i jj kk. is_local e i \<and> 0 \<le> jj \<and> jj < kk \<and> kk < npartner s ! nat i \<and>
                     partner s ! nat i ! nat jj = partner s ! nat i ! nat kk)
               then Inl DuplicateParticle else Inr ())"
    if "sized s n" "atom_nlocal e \<le> int n"
      "\<forall>i. is_local e i \<longrightarrow> npartner s ! nat i \<le> maxpartner s" for s n
    using duplicate_check_result [OF that] by (simp add: periodic_def has_duplicate_iff)
  from setup_bonds_result [OF assms, of others] obtain s4 where
    s4: "setup_bonds e others st = Inr s4" "sized s4 (nat (atom_nmax e))"
    "maxpartner s4 = allreduce_max (local_degree_max e) others"
    "\<And>i. is_local e i \<Longrightarrow> bonds s4 i = created e i \<and>
        npartner s4 ! nat i = int (length (created e i)) \<and> wvolume s4 ! nat i = 0"
    by blast
  have le: "\<forall>i. is_local e i \<longrightarrow> npartner s4 ! nat i \<le> maxpartner s4"
  proof (intro allI impI)
    fix i assume i: "is_local e i"
    have "npartner s4 ! nat i \<le> local_degree_max e"
      using s4(4) [OF i] local_degree_max_props(2) [OF i] by simp
    also have "\<dots> \<le> maxpartner s4"
      unfolding s4(3) by (rule allreduce_max_props(1))
    finally show "npartner s4 ! nat i \<le> maxpartner s4" .
  qed
  have nm: "atom_nlocal e \<le> int (nat (atom_nmax e))"
    using assms(1) by (simp add: neigh_ok_def)
  note chk = a [OF s4(2) nm le]
  have f: "first st \<noteq> 0" using assms(2) by (simp add: unbuilt_def)
  have b: "setup_peri e others st = Inl DuplicateParticle \<longleftrightarrow>
               (domain_xperiodic e \<or> domain_yperiodic e \<or> domain_zperiodic e) \<and>
               (\<exists>i jj kk. is_local e i \<and> 0 \<le> jj \<and> jj < kk \<and> kk < npartner s4 ! nat i \<and>
                  partner s4 ! nat i ! nat jj = partner s4 ! nat i ! nat kk)"
  proof
    assume "setup_peri e others st = Inl DuplicateParticle"
    from setup_peri_Inl [OF this] s4(1) have "duplicate_check e s4 = Inl DuplicateParticle"
      by simp
    with chk show "(domain_xperiodic e \<or> domain_yperiodic e \<or> domain_zperiodic e) \<and>
               (\<exists>i jj kk. is_local e i \<and> 0 \<le> jj \<and> jj < kk \<and> kk < npartner s4 ! nat i \<and>
                  partner s4 ! nat i ! nat jj = partner s4 ! nat i ! nat kk)"
      by (metis Inl_Inr_False)
  next
    assume "(domain_xperiodic e \<or> domain_yperiodic e \<or> domain_zperiodic e) \<and>
               (\<exists>i jj kk. is_local e i \<and> 0 \<le> jj \<and> jj < kk \<and> kk < npartner s4 ! nat i \<and>
                  partner s4 ! nat i ! nat jj = partner s4 ! nat i ! nat kk)"
    with chk have "duplicate_check e s4 = Inl DuplicateParticle" by simp
    with f s4(1) show "setup_peri e others st = Inl DuplicateParticle"
      by (simp add: setup_peri_def)
  qed
  have c: "duplicate_check e s = Inr () \<and> setup_peri e o' s \<noteq> Inl DuplicateParticle"
    if np: "\<not> (domain_xperiodic e \<or> domain_yperiodic e \<or> domain_zperiodic e)" for s o'
  proof -
    have d: "duplicate_check e s' = Inr ()" for s'
      using np by (simp add: duplicate_check_def)
    have "setup_peri e o' s \<noteq> Inl DuplicateParticle"
    proof
      assume "setup_peri e o' s = Inl DuplicateParticle"
      from setup_peri_Inl [OF this] d show False by auto
    qed
    with d show ?thesis by simp
  qed
  from a s4(1) b c show ?thesis by blast
qed

subsection \<open>The build on concrete inputs\<close>

lemma count_up_1: "count_up 1 = [0]"
  by (simp add: count_up_def)

lemma count_up_2: "count_up 2 = [0, 1]"
proof -
  have "[0..<2] = [0, Suc 0]" by (simp add: upt_rec)
  then show ?thesis by (simp add: count_up_def)
qed

lemma upt_2: "[0..<2] = [0, 1]" "[0..<Suc 0] = [0]" "[0..<4] = [0, 1, 2, 3]"
  by (simp_all add: upt_rec)

lemma count_from_12: "count_from 1 1 = []" "count_from 2 2 = []" "count_from 1 2 = [1]"
  by (simp_all add: count_from_def)

lemma ex_env_list: "atom_nlocal ex_env = 2" "atom_nmax ex_env = 2" "list_ilist ex_env = [0, 1]"
  "list_firstneigh ex_env 0 = [1]" "list_firstneigh ex_env 1 = [0]" "neighmask ex_env = 1073741823"
  by (simp_all add: ex_env_def)

lemma ex_env_atom: "atom_tag ex_env j = j + 1" "atom_vfrac ex_env j = 1"
  "atom_map ex_env 2 = 1" "atom_map ex_env 1 = 0" "half_lc ex_env = 1 / 2"
  "delta ex_env i j = 1" "rsq0 ex_env 0 1 = 1" "rsq0 ex_env 1 0 = 1"
  "pair_anypair ex_env = PairPeriPMB" "rsq ex_env 0 1 = 1" "rsq ex_env 1 0 = 1"
  "dbl_sqrt ex_env r = sqrt r"
  by (simp_all add: ex_env_def half_lc_def delta_def rsq0_def del0_def rsq_def)

lemma ex_env_cutoff: "in_cutoff ex_env 0 1" "in_cutoff ex_env 1 0"
  by (simp_all add: in_cutoff_def ex_env_atom) (simp_all add: ex_env_def)

lemma ex_env_ok: "neigh_ok ex_env" "unbuilt ex_env ex_new"
  by (simp_all add: neigh_ok_def unbuilt_def is_local_def ex_env_list count_up_2)
    (simp_all add: ex_new_def)

lemma ex_constructor: "constructor ex_env = Inr ex_new"
  by (simp add: constructor_def constructor_zero_def grow_arrays_def grow1_def grow2_def
      ex_env_list count_up_2 wr_def upt_2) (simp add: ex_env_def ex_new_def)

lemma ex_sizing:
  "setup_sizing ex_env (ex_new\<lparr>first := 0\<rparr>) = Inr (ex_new\<lparr>first := 0, npartner := [1, 1]\<rparr>)"
  by (simp add: setup_sizing_def setup_count_def ex_env_list ex_env_cutoff rd_def wr_def ex_new_def)

lemma ex_localmax:
  "setup_localmax ex_env (ex_new\<lparr>first := 0, npartner := [1, 1]\<rparr>) = Inr 1"
  by (simp add: setup_localmax_def ex_env_list count_up_2 rd_def)

lemma ex_realloc:
  "setup_realloc ex_env (ex_new\<lparr>first := 0, npartner := [1, 1], maxpartner := 1\<rparr>) =
   ex_new\<lparr>first := 0\<rparr>"
  by (simp add: setup_realloc_def grow_arrays_def grow1_def grow2_def ex_env_list upt_2)
    (simp add: ex_env_def ex_new_def)

lemma ex_reset:
  "foldE setup_reset (count_up 2) (ex_new\<lparr>first := 0\<rparr>) = Inr (ex_new\<lparr>first := 0\<rparr>)"
  by (simp add: count_up_2 setup_reset_def wr_def ex_new_def)

lemma ex_populate:
  "setup_populate ex_env (ex_new\<lparr>first := 0\<rparr>) = Inr (ex_built\<lparr>wvolume := [0, 0]\<rparr>)"
  by (simp add: setup_populate_def setup_bond_def ex_env_list ex_env_cutoff ex_env_atom
      rd_def wr_def wr2_def ex_new_def ex_built_def)

lemma ex_bonds:
  "allreduce_max 1 others = 1 \<Longrightarrow>
   setup_bonds ex_env others ex_new = Inr (ex_built\<lparr>wvolume := [0, 0]\<rparr>)"
  by (simp add: setup_bonds_def ex_sizing ex_localmax ex_realloc ex_env_list ex_reset ex_populate)

lemma ex_check: "duplicate_check ex_env (ex_built\<lparr>wvolume := [0, 0]\<rparr>) = Inr ()"
  by (simp add: duplicate_check_def duplicate_atom_def ex_env_list count_up_2 count_up_1
      count_from_12 rd_def ex_built_def)

lemma ex_wvolume: "setup_wvolume ex_env (ex_built\<lparr>wvolume := [0, 0]\<rparr>) = Inr ex_built"
  by (simp add: setup_wvolume_def wvolume_atom_def wvolume_bond_def wvolume_add_def
      ex_env_list count_up_2 count_up_1 rd_def rd2_def wr_def ex_env_atom vfrac_scale_def
      ex_built_def)

lemma ex_comm: "forward_comm_fix ex_env st = Inr st"
  by (simp add: forward_comm_fix_def ex_env_def)

lemma ex_setup:
  "allreduce_max 1 others = 1 \<Longrightarrow> setup_peri ex_env others ex_new = Inr ex_built"
  by (simp add: setup_peri_def ex_bonds ex_check ex_wvolume ex_comm) (simp add: ex_new_def)

lemma ex_far_list: "atom_nlocal ex_far = 2" "atom_nmax ex_far = 2" "list_ilist ex_far = [0, 1]"
  "list_firstneigh ex_far 0 = [1]" "list_firstneigh ex_far 1 = [0]" "neighmask ex_far = 1073741823"
  by (simp_all add: ex_far_def ex_env_def)

lemma ex_far_cutoff: "\<not> in_cutoff ex_far 0 1" "\<not> in_cutoff ex_far 1 0"
  by (simp_all add: in_cutoff_def rsq_def ex_far_def ex_env_def)

lemma ex_far_ok: "neigh_ok ex_far" "unbuilt ex_far ex_new"
  by (simp_all add: neigh_ok_def unbuilt_def is_local_def ex_far_list count_up_2)
    (simp_all add: ex_new_def)

lemma ex_far_contribution: "setup_contribution (ex_far, ex_new) = Inr 0"
  by (simp add: setup_contribution_def setup_sizing_def setup_count_def ex_far_list ex_far_cutoff
      setup_localmax_def count_up_2 rd_def) (simp add: ex_new_def)

lemma ex_far_realloc:
  "setup_realloc ex_far (ex_new\<lparr>first := 0, maxpartner := 1\<rparr>) = ex_new\<lparr>first := 0\<rparr>"
  by (simp add: setup_realloc_def grow_arrays_def grow1_def grow2_def ex_far_list upt_2)
    (simp add: ex_far_def ex_env_def ex_new_def)

lemma ex_far_bonds: "setup_bonds ex_far [1] ex_new = Inr (ex_new\<lparr>first := 0\<rparr>)"
proof -
  have a: "setup_sizing ex_far (ex_new\<lparr>first := 0\<rparr>) = Inr (ex_new\<lparr>first := 0\<rparr>)"
    by (simp add: setup_sizing_def setup_count_def ex_far_list ex_far_cutoff)
  have b: "setup_localmax ex_far (ex_new\<lparr>first := 0\<rparr>) = Inr 0"
    by (simp add: setup_localmax_def ex_far_list count_up_2 rd_def) (simp add: ex_new_def)
  have c: "setup_populate ex_far (ex_new\<lparr>first := 0\<rparr>) = Inr (ex_new\<lparr>first := 0\<rparr>)"
    by (simp add: setup_populate_def setup_bond_def ex_far_list ex_far_cutoff)
  show ?thesis
    by (simp add: setup_bonds_def a b allreduce_max_def ex_far_realloc ex_far_list ex_reset c)
qed

lemma ex_new_first: "first ex_new = 1"
  by (simp add: ex_new_def)

lemma ex_far_setup: "setup_peri ex_far [1] ex_new = Inr (ex_new\<lparr>first := 0\<rparr>)"
proof -
  have a: "duplicate_check ex_far (ex_new\<lparr>first := 0\<rparr>) = Inr ()"
    by (simp add: duplicate_check_def duplicate_atom_def ex_far_list count_up_2 rd_def
        ex_new_def)
  have b: "setup_wvolume ex_far (ex_new\<lparr>first := 0\<rparr>) = Inr (ex_new\<lparr>first := 0\<rparr>)"
    by (simp add: setup_wvolume_def wvolume_atom_def ex_far_list count_up_2 rd_def
        ex_new_def)
  have c: "forward_comm_fix ex_far st = Inr st" for st
    by (simp add: forward_comm_fix_def ex_far_def ex_env_def)
  show ?thesis
    by (simp add: setup_peri_def ex_new_first ex_far_bonds a b c)
qed

lemma ex_contribution: "setup_contribution (ex_env, ex_new) = Inr 1"
  by (simp add: setup_contribution_def ex_sizing ex_localmax)

lemma ex_all:
  "setup_all [(ex_env, ex_new), (ex_far, ex_new)] = Inr [ex_built, ex_new\<lparr>first := 0\<rparr>]"
  by (simp add: setup_all_def ex_contribution ex_far_contribution upt_2 ex_setup
      allreduce_max_def ex_far_setup)

lemma ex_dup_list: "atom_nlocal ex_dup = 2" "atom_nmax ex_dup = 2" "list_ilist ex_dup = [0, 1]"
  "list_firstneigh ex_dup 0 = [1, 1]" "list_firstneigh ex_dup 1 = [0]"
  "neighmask ex_dup = 1073741823"
  by (simp_all add: ex_dup_def ex_env_def)

lemma ex_dup_atom: "atom_tag ex_dup j = j + 1" "atom_vfrac ex_dup j = 1"
  "rsq ex_dup 0 1 = 1" "rsq ex_dup 1 0 = 1" "in_cutoff ex_dup 0 1" "in_cutoff ex_dup 1 0"
  "domain_xperiodic ex_dup" "dbl_sqrt ex_dup r = sqrt r"
  by (simp_all add: ex_dup_def ex_env_def rsq_def in_cutoff_def)

lemma ex_dup_ok: "neigh_ok ex_dup" "unbuilt ex_dup ex_new"
  by (simp_all add: neigh_ok_def unbuilt_def is_local_def ex_dup_list count_up_2)
    (simp_all add: ex_new_def)

lemma ex_dup_setup_bonds: "setup_bonds ex_dup [] ex_new = Inr ex_dup_bonds"
proof -
  have a: "setup_sizing ex_dup (ex_new\<lparr>first := 0\<rparr>) = Inr (ex_new\<lparr>first := 0, npartner := [2, 1]\<rparr>)"
    by (simp add: setup_sizing_def setup_count_def ex_dup_list ex_dup_atom rd_def wr_def ex_new_def)
  have b: "setup_localmax ex_dup (ex_new\<lparr>first := 0, npartner := [2, 1]\<rparr>) = Inr 2"
    by (simp add: setup_localmax_def ex_dup_list count_up_2 rd_def)
  define s2 where "s2 = \<lparr>first = 0, maxpartner = 2, npartner = [0, 0],
     partner = [[0, 0], [0, 0]], r0 = [[0, 0], [0, 0]], vinter = [0, 0], wvolume = [0::real, 0]\<rparr>"
  have c: "setup_realloc ex_dup (ex_new\<lparr>first := 0, npartner := [2, 1], maxpartner := 2\<rparr>) = s2"
    by (simp add: setup_realloc_def grow_arrays_def grow1_def grow2_def ex_dup_list upt_2)
      (simp add: ex_dup_def ex_env_def ex_new_def s2_def)
  have d: "foldE setup_reset (count_up 2) s2 = Inr s2"
    by (simp add: count_up_2 setup_reset_def wr_def s2_def)
  have e: "setup_populate ex_dup s2 = Inr ex_dup_bonds"
    by (simp add: setup_populate_def setup_bond_def ex_dup_list ex_dup_atom
        rd_def wr_def wr2_def s2_def ex_dup_bonds_def)
  show ?thesis
    by (simp add: setup_bonds_def a b allreduce_max_def c ex_dup_list d e)
qed

text \<open>
  The build of \<open>ex_env\<close> from \<open>ex_new\<close> gives \<open>ex_built\<close>, and a second call, here
  with another neighbour list and another value from the other ranks, changes nothing.
\<close>

theorem build_once_witness:
  "setup_peri ex_env [] ex_new = Inr ex_built \<and> first ex_built = 0 \<and>
   setup_peri ex_far [7] ex_built = Inr ex_built"
proof -
  have r: "setup_peri ex_env [] ex_new = Inr ex_built"
    by (rule ex_setup) (simp add: allreduce_max_def)
  with build_once [of ex_new ex_env "[]" ex_built] show ?thesis by simp
qed

text \<open>
  On \<open>ex_env\<close> the population pass ends in bounds with rows of one entry, the local
  maximum of the sizing pass.
\<close>

theorem population_in_bounds_witness:
  "neigh_ok ex_env \<and> unbuilt ex_env ex_new \<and>
   setup_bonds ex_env [] ex_new = Inr (ex_built\<lparr>wvolume := [0, 0]\<rparr>) \<and>
   sized (ex_built\<lparr>wvolume := [0, 0]\<rparr>) 2 \<and> local_degree_max ex_env \<le> 1 \<and>
   npartner ex_built ! nat 0 = int (length (created ex_env 0))"
proof -
  have b: "setup_bonds ex_env [] ex_new = Inr (ex_built\<lparr>wvolume := [0, 0]\<rparr>)"
    by (rule ex_bonds) (simp add: allreduce_max_def)
  have l: "is_local ex_env 0"
    by (simp add: is_local_def ex_env_list)
  from population_in_bounds [OF ex_env_ok, of "[]"] obtain s4 where
    s4: "setup_bonds ex_env [] ex_new = Inr s4" "sized s4 (nat (atom_nmax ex_env))"
      "local_degree_max ex_env \<le> maxpartner s4"
      "\<forall>i. is_local ex_env i \<longrightarrow> npartner s4 ! nat i = int (length (created ex_env i)) \<and>
               npartner s4 ! nat i \<le> local_degree_max ex_env"
    by blast
  from s4(1) b have e: "s4 = ex_built\<lparr>wvolume := [0, 0]\<rparr>" by simp
  from s4(2,3) s4(4) [rule_format, OF l]
  have "sized (ex_built\<lparr>wvolume := [0, 0]\<rparr>) 2" "local_degree_max ex_env \<le> 1"
    "npartner ex_built ! nat 0 = int (length (created ex_env 0))"
    unfolding e by (simp_all add: ex_env_list) (simp_all add: ex_built_def)
  with ex_env_ok b show ?thesis by simp
qed

lemma ex_round_list: "atom_nlocal ex_round = 1" "atom_nmax ex_round = 4"
  "list_ilist ex_round = [0]" "list_firstneigh ex_round 0 = [1, 1073741826, 3]"
  "neighmask ex_round = 1073741823"
  by (simp_all add: ex_round_def)

lemma ex_round_mask: "(1::int) AND 1073741823 = 1" "(1073741826::int) AND 1073741823 = 2"
  "(3::int) AND 1073741823 = 3"
  by simp_all

lemma ex_round_ok: "neigh_ok ex_round" "unbuilt ex_round ex_round_new"
  by (simp_all add: neigh_ok_def unbuilt_def is_local_def ex_round_list count_up_1)
    (simp_all add: ex_round_new_def)

lemma ex_round_exact: "ex_d049 < ex_d07 * ex_d07"
  by (simp add: ex_d07_def ex_d049_def)

lemma sqrt_49: "sqrt 49 = 7"
  by (rule real_sqrt_unique) simp_all

lemma ex_round_rsq: "rsq ex_round 0 1 = ex_d049" "rsq ex_round 0 2 = 49" "rsq ex_round 0 3 = 62"
  by (simp_all add: rsq_def ex_round_def ex_d07_def ex_d049_def)

lemma rsq_positions:
  "rsq e i j =
     dbl_add e
       (dbl_add e
          (dbl_mul e (dbl_sub e (atom_x e i 0) (atom_x e j 0))
                     (dbl_sub e (atom_x e i 0) (atom_x e j 0)))
          (dbl_mul e (dbl_sub e (atom_x e i 1) (atom_x e j 1))
                     (dbl_sub e (atom_x e i 1) (atom_x e j 1))))
       (dbl_mul e (dbl_sub e (atom_x e i 2) (atom_x e j 2))
                  (dbl_sub e (atom_x e i 2) (atom_x e j 2)))"
  by (simp add: rsq_def Let_def)

lemma ex_round_atom: "atom_tag ex_round j = j + 1"
  "pair_cutsq ex_round (atom_type ex_round 0) (atom_type ex_round 1) = ex_d049"
  "pair_cutsq ex_round (atom_type ex_round 0) (atom_type ex_round 2) = 49"
  "pair_cutsq ex_round (atom_type ex_round 0) (atom_type ex_round 3) = 49"
  "dbl_sqrt ex_round ex_d049 = ex_d07" "dbl_sqrt ex_round 49 = 7"
  by (simp_all add: ex_round_def sqrt_49) (simp add: ex_d049_def)

text \<open>
  On \<open>ex_round\<close> the exact product of \<open>ex_d07\<close> with itself exceeds the squared cutoff
  \<open>ex_d049\<close>, and the squared distance of particles 0 and 1 as the code computes it
  equals it: particle 0 gets the bond to tag 2 with \<open>r0 = ex_d07\<close>. It gets the bond to
  tag 3, whose squared distance 49 equals its squared cutoff, with \<open>r0 = 7\<close>, and no bond
  to tag 4, whose squared distance is 62.
\<close>

theorem bond_iff_in_cutoff_witness:
  "neigh_ok ex_round \<and> unbuilt ex_round ex_round_new \<and>
   ex_d049 < ex_d07 * ex_d07 \<and>
   rsq ex_round 0 1 = pair_cutsq ex_round (atom_type ex_round 0) (atom_type ex_round 1) \<and>
   rsq ex_round 0 2 = pair_cutsq ex_round (atom_type ex_round 0) (atom_type ex_round 2) \<and>
   pair_cutsq ex_round (atom_type ex_round 0) (atom_type ex_round 3) < rsq ex_round 0 3 \<and>
   (\<exists>s4. setup_bonds ex_round [] ex_round_new = Inr s4 \<and>
      bonds s4 0 = [(2, ex_d07), (3, 7)])"
proof -
  have d: "distinct (list_ilist ex_round)" "0 \<in> set (list_ilist ex_round)"
    by (simp_all add: ex_round_list)
  have f: "filter (\<lambda>jraw. rsq ex_round 0 (jraw AND neighmask ex_round) \<le>
             pair_cutsq ex_round (atom_type ex_round 0)
               (atom_type ex_round (jraw AND neighmask ex_round)))
           (list_firstneigh ex_round 0) = [1, 1073741826]"
    by (simp add: ex_round_list ex_round_mask ex_round_rsq ex_round_atom)
  have r: "rsq ex_round 0 1 = pair_cutsq ex_round (atom_type ex_round 0) (atom_type ex_round 1)"
    "rsq ex_round 0 2 = pair_cutsq ex_round (atom_type ex_round 0) (atom_type ex_round 2)"
    "pair_cutsq ex_round (atom_type ex_round 0) (atom_type ex_round 3) < rsq ex_round 0 3"
    by (simp_all add: ex_round_rsq ex_round_atom)
  from bond_iff_in_cutoff [OF ex_round_ok d, of "[]", unfolded Let_def, folded rsq_positions]
  obtain s4 where s4:
    "setup_bonds ex_round [] ex_round_new = Inr s4"
    "bonds s4 0 =
       map (\<lambda>jraw. (atom_tag ex_round (jraw AND neighmask ex_round),
                    dbl_sqrt ex_round (rsq ex_round 0 (jraw AND neighmask ex_round))))
         (filter (\<lambda>jraw. rsq ex_round 0 (jraw AND neighmask ex_round) \<le>
             pair_cutsq ex_round (atom_type ex_round 0)
               (atom_type ex_round (jraw AND neighmask ex_round)))
           (list_firstneigh ex_round 0))"
    by blast
  from s4(2) have b: "bonds s4 0 = [(2, ex_d07), (3, 7)]"
    unfolding f by (simp add: ex_round_list ex_round_mask ex_round_rsq ex_round_atom)
  from s4(1) b have "\<exists>s4. setup_bonds ex_round [] ex_round_new = Inr s4 \<and>
      bonds s4 0 = [(2, ex_d07), (3, 7)]"
    by simp
  with ex_round_ok ex_round_exact r show ?thesis by blast
qed

text \<open>
  Two ranks: on the first each particle has one bond, on the second none; both end with
  \<open>maxpartner = 1\<close>.
\<close>

theorem maxpartner_global_witness:
  "setup_all [(ex_env, ex_new), (ex_far, ex_new)] = Inr [ex_built, ex_new\<lparr>first := 0\<rparr>] \<and>
   maxpartner ex_built = 1 \<and> maxpartner (ex_new\<lparr>first := 0\<rparr>) = 1 \<and>
   npartner ex_built ! nat 0 \<le> 1 \<and> npartner (ex_new\<lparr>first := 0\<rparr>) ! nat 0 \<le> 1"
proof -
  let ?ps = "[(ex_env, ex_new), (ex_far, ex_new)]"
  let ?sts = "[ex_built, ex_new\<lparr>first := 0\<rparr>]"
  have pre: "\<forall>p\<in>set ?ps. neigh_ok (fst p) \<and> unbuilt (fst p) (snd p)"
    by (simp add: ex_env_ok ex_far_ok)
  from maxpartner_global [OF pre ex_all] obtain M where
    M: "\<forall>k<length ?ps. maxpartner (?sts ! k) = M \<and>
          (\<forall>i. is_local (fst (?ps ! k)) i \<longrightarrow> npartner (?sts ! k) ! nat i \<le> maxpartner (?sts ! k))"
    by blast
  have l: "is_local ex_env 0" "is_local ex_far 0"
    by (simp_all add: is_local_def ex_env_list ex_far_list)
  from M [rule_format, of 0] M [rule_format, of 1]
  have m: "maxpartner ex_built = M" "maxpartner (ex_new\<lparr>first := 0\<rparr>) = M"
    and n: "\<forall>i. is_local ex_env i \<longrightarrow> npartner ex_built ! nat i \<le> maxpartner ex_built"
      "\<forall>i. is_local ex_far i \<longrightarrow>
         npartner (ex_new\<lparr>first := 0\<rparr>) ! nat i \<le> maxpartner (ex_new\<lparr>first := 0\<rparr>)"
    by auto
  from m n(1) [rule_format, OF l(1)] n(2) [rule_format, OF l(2)]
  have "maxpartner ex_built = M" "maxpartner (ex_new\<lparr>first := 0\<rparr>) = M"
    "npartner ex_built ! nat 0 \<le> maxpartner ex_built"
    "npartner (ex_new\<lparr>first := 0\<rparr>) ! nat 0 \<le> maxpartner (ex_new\<lparr>first := 0\<rparr>)"
    by simp_all
  moreover have "maxpartner ex_built = 1" by (simp add: ex_built_def)
  ultimately show ?thesis using ex_all by simp
qed

text \<open>
  On \<open>ex_dup\<close>, with a periodic x axis, particle 0 gets tag 2 in both of its slots and
  \<open>setup\<close> raises \<open>DuplicateParticle\<close>.
\<close>

theorem duplicate_guard_witness:
  "neigh_ok ex_dup \<and> unbuilt ex_dup ex_new \<and> domain_xperiodic ex_dup \<and>
   setup_bonds ex_dup [] ex_new = Inr ex_dup_bonds \<and>
   partner ex_dup_bonds ! nat 0 ! nat 0 = partner ex_dup_bonds ! nat 0 ! nat 1 \<and>
   setup_peri ex_dup [] ex_new = Inl DuplicateParticle"
proof -
  have p: "partner ex_dup_bonds ! nat 0 ! nat 0 = partner ex_dup_bonds ! nat 0 ! nat 1"
    "(1::int) < npartner ex_dup_bonds ! nat 0" "is_local ex_dup 0"
    by (simp_all add: ex_dup_bonds_def is_local_def ex_dup_list)
  then have dup: "\<exists>i jj kk. is_local ex_dup i \<and> 0 \<le> jj \<and> jj < kk \<and>
      kk < npartner ex_dup_bonds ! nat i \<and>
      partner ex_dup_bonds ! nat i ! nat jj = partner ex_dup_bonds ! nat i ! nat kk"
    by (intro exI [of _ 0] exI [of _ 1]) simp
  from duplicate_guard [OF ex_dup_ok, of "[]"] obtain s4 where
    s4: "setup_bonds ex_dup [] ex_new = Inr s4"
      "setup_peri ex_dup [] ex_new = Inl DuplicateParticle \<longleftrightarrow>
         (domain_xperiodic ex_dup \<or> domain_yperiodic ex_dup \<or> domain_zperiodic ex_dup) \<and>
         (\<exists>i jj kk. is_local ex_dup i \<and> 0 \<le> jj \<and> jj < kk \<and> kk < npartner s4 ! nat i \<and>
            partner s4 ! nat i ! nat jj = partner s4 ! nat i ! nat kk)"
    by blast
  from s4(1) have "s4 = ex_dup_bonds" by (simp add: ex_dup_setup_bonds)
  with s4(2) dup have "setup_peri ex_dup [] ex_new = Inl DuplicateParticle"
    by (simp add: ex_dup_atom)
  with ex_dup_ok ex_dup_setup_bonds p(1) show ?thesis by (simp add: ex_dup_atom)
qed

end
